theory Spec2Isabelle
  imports Main "HOL-Library.Multiset"
begin

section \<open>Data model: torch.fx nodes as the passes see them\<close>

text \<open>
  The three passes of \<^verbatim>\<open>flexnas/graph/annotation.py\<close> walk a \<^verbatim>\<open>torch.fx\<close> graph and write
  entries into the \<^verbatim>\<open>meta\<close> dictionary of every node. A graph is the list of its nodes in
  the order of \<^verbatim>\<open>fx_graph.nodes\<close>; a node is referred to by its position in that list.
\<close>

datatype opcode = placeholder | get_attr | call_function | call_method | call_module | output_op

text \<open>The function objects a \<^verbatim>\<open>call_function\<close> target is compared with.\<close>

datatype func =
    torch_add | operator_add | torch_sub | operator_sub
  | F_relu | F_relu6 | F_log_softmax
  | torch_flatten | torch_squeeze | torch_cat
  | other_func string

datatype target = Name string | Func func

text \<open>The concrete layer classes \<^verbatim>\<open>type(submodule)\<close> is compared with.\<close>

datatype layer =
    Conv1d | Conv2d | Linear
  | BatchNorm1d | BatchNorm2d | AvgPool1d | AvgPool2d | MaxPool1d
  | Dropout | ReLU | ReLU6 | ConstantPad1d | ConstantPad2d
  | other_layer string

text \<open>Python values found in \<^verbatim>\<open>n.args\<close> and \<^verbatim>\<open>n.kwargs\<close>.\<close>

datatype arg = IntArg int | NoneArg | NodeArg nat | SeqArg "arg list"

text \<open>
  Modelled from the spec: the calculator classes of \<^verbatim>\<open>features_calculation.py\<close> are
  imported by \<^verbatim>\<open>annotation.py\<close> but are not among the sources. The spec gives the closed
  variant set: Const (fixed count), Flatten (reference and integer multiplier), Concat
  (ordered list of upstream calculators, value = sum); a passthrough is the upstream
  calculator itself, as the code assigns it.
\<close>

datatype features_calculator =
    ConstFeaturesCalculator int
  | FlattenFeaturesCalculator features_calculator int
  | ConcatFeaturesCalculator "features_calculator list"

fun features :: "features_calculator \<Rightarrow> int" where
  "features (ConstFeaturesCalculator c) = c"
| "features (FlattenFeaturesCalculator fc m) = features fc * m"
| "features (ConcatFeaturesCalculator fcs) = sum_list (map features fcs)"

text \<open>\<^verbatim>\<open>input_features_set_by\<close> holds one node, or the list \<^verbatim>\<open>n.all_input_nodes\<close>.\<close>

datatype set_by = Single nat | Multiple "nat list"

text \<open>The \<^verbatim>\<open>meta\<close> dictionary: an absent key is \<open>None\<close>.\<close>

record meta_dict =
  features_propagating :: "bool option"
  features_defining :: "bool option"
  shared_input_features :: "bool option"
  flatten :: "bool option"
  squeeze :: "bool option"
  features_concatenate :: "bool option"
  untouchable :: "bool option"
  zero_or_one_input :: "bool option"
  tensor_meta :: "int list option"
  features_calculator :: "features_calculator option"
  input_features_set_by :: "set_by option"

record node =
  op :: opcode
  target :: target
  all_input_nodes :: "nat list"
  args :: "arg list"
  kwargs :: "(string \<times> arg) list"
  meta :: meta_dict

type_synonym graph = "node list"

text \<open>\<^verbatim>\<open>parent.get_submodule\<close>: the registry of submodules by name.\<close>

type_synonym registry = "string \<Rightarrow> layer option"

datatype error =
    ValueError_unsupported_node nat
  | ValueError_squeeze_without_dim
  | AssertionError_flatten_batch
  | AssertionError_squeeze_batch
  | KeyError string
  | IndexError
  | TypeError
  | AttributeError
  | NetworkXError nat

section \<open>Graph adapter (\<^verbatim>\<open>flexnas/utils/model_graph.py\<close>)\<close>

text \<open>
  \<^verbatim>\<open>networkx.DiGraph\<close> keeps, per node, the dictionary of its successors in insertion
  order; \<^verbatim>\<open>add_edge\<close> creates both end points when they are new and adds the edge once.
\<close>

type_synonym nx_graph = "nat \<Rightarrow> nat list option"

definition add_edge :: "nx_graph \<Rightarrow> nat \<Rightarrow> nat \<Rightarrow> nx_graph" where
  "add_edge G u v =
     (let G1 = (case G u of None \<Rightarrow> G(u \<mapsto> []) | Some _ \<Rightarrow> G);
          G2 = (case G1 v of None \<Rightarrow> G1(v \<mapsto> []) | Some _ \<Rightarrow> G1)
      in (case G2 u of
            None \<Rightarrow> G2
          | Some su \<Rightarrow> G2(u \<mapsto> (if v \<in> set su then su else su @ [v]))))"

definition fx_to_nx_graph :: "graph \<Rightarrow> nx_graph" where
  "fx_to_nx_graph g =
     fold (\<lambda>n G. fold (\<lambda>i G'. add_edge G' i n) (all_input_nodes (g ! n)) G)
       [0..<length g] Map.empty"

text \<open>\<^verbatim>\<open>nx_graph.successors(n)\<close> raises for a node that is not in the graph.\<close>

definition successors :: "nx_graph \<Rightarrow> nat \<Rightarrow> error + nat list" where
  "successors G n = (case G n of None \<Rightarrow> Inl (NetworkXError n) | Some ms \<Rightarrow> Inr ms)"

definition get_input_nodes :: "graph \<Rightarrow> nat list" where
  "get_input_nodes g = filter (\<lambda>n. op (g ! n) = placeholder) [0..<length g]"

definition get_submodule :: "registry \<Rightarrow> target \<Rightarrow> error + layer" where
  "get_submodule parent t =
     (case t of
        Name s \<Rightarrow> (case parent s of None \<Rightarrow> Inl AttributeError | Some l \<Rightarrow> Inr l)
      | Func f \<Rightarrow> Inl AttributeError)"

section \<open>Argument lookup (\<^verbatim>\<open>flexnas/graph/utils.py\<close>)\<close>

definition try_get_args :: "node \<Rightarrow> nat \<Rightarrow> string \<Rightarrow> arg \<Rightarrow> arg" where
  "try_get_args n args_idx kwargs_str dflt =
     (if length (args n) > args_idx then args n ! args_idx
      else (case map_of (kwargs n) kwargs_str of
              None \<Rightarrow> dflt
            | Some a \<Rightarrow> (if a \<noteq> NoneArg then a else dflt)))"

section \<open>Node classifier\<close>

definition is_zero_or_one_input_op :: "node \<Rightarrow> bool" where
  "is_zero_or_one_input_op n = (length (all_input_nodes n) \<le> 1)"

definition is_shared_input_features_op :: "node \<Rightarrow> bool" where
  "is_shared_input_features_op n =
     (if is_zero_or_one_input_op n then False
      else if op n = call_function then
        (if target n = Func torch_add then True
         else if target n = Func operator_add then True
         else if target n = Func torch_sub then True
         else if target n = Func operator_sub then True
         else False)
      else False)"

definition is_features_defining_op :: "registry \<Rightarrow> node \<Rightarrow> error + bool" where
  "is_features_defining_op parent n =
     (if op n = placeholder \<and> length (all_input_nodes n) = 0 then Inr True
      else if op n = call_module then
        (case get_submodule parent (target n) of
           Inl e \<Rightarrow> Inl e
         | Inr submodule \<Rightarrow>
             (if submodule = Conv1d then Inr True
              else if submodule = Conv2d then Inr True
              else if submodule = Linear then Inr True
              else Inr False))
      else Inr False)"

definition is_features_propagating_op :: "registry \<Rightarrow> node \<Rightarrow> error + bool" where
  "is_features_propagating_op parent n =
     (if op n = output_op then Inr True
      else
        (case (if op n = call_module then
                 (case get_submodule parent (target n) of
                    Inl e \<Rightarrow> Inl e
                  | Inr submodule \<Rightarrow>
                      Inr (submodule \<in> {BatchNorm1d, BatchNorm2d, AvgPool1d, AvgPool2d,
                             MaxPool1d, Dropout, ReLU, ReLU6, ConstantPad1d, ConstantPad2d}))
               else Inr False) of
           Inl e \<Rightarrow> Inl e
         | Inr True \<Rightarrow> Inr True
         | Inr False \<Rightarrow>
             (if op n = call_function then
                (if target n = Func F_relu then Inr True
                 else if target n = Func F_relu6 then Inr True
                 else if target n = Func F_log_softmax then Inr True
                 else Inr False)
              else Inr False)))"

definition is_flatten :: "node \<Rightarrow> bool" where
  "is_flatten n =
     (if op n = call_method \<and> target n = Name ''flatten'' then True
      else if op n = call_function \<and> target n = Func torch_flatten then True
      else False)"

definition is_concatenate :: "node \<Rightarrow> bool" where
  "is_concatenate n =
     (if op n = call_function \<and> target n = Func torch_cat then True else False)"

text \<open>
  Modelled from the spec: \<^verbatim>\<open>is_squeeze\<close> is imported from \<^verbatim>\<open>inspection\<close>, which is not among
  the sources. The spec: true for the squeeze reshape operation, the sibling of
  \<^verbatim>\<open>is_flatten\<close>.
\<close>

definition is_squeeze :: "node \<Rightarrow> bool" where
  "is_squeeze n =
     (if op n = call_method \<and> target n = Name ''squeeze'' then True
      else if op n = call_function \<and> target n = Func torch_squeeze then True
      else False)"

text \<open>
  Modelled from the spec: \<^verbatim>\<open>is_features_concatenate\<close> is imported from \<^verbatim>\<open>inspection\<close>, which
  is not among the sources. The spec: true for channel-axis concatenation, where
  dimension 1 is the channel; \<^verbatim>\<open>torch.cat\<close> takes its axis as second argument \<^verbatim>\<open>dim\<close>,
  0 when absent.
\<close>

definition is_features_concatenate :: "node \<Rightarrow> bool" where
  "is_features_concatenate n =
     (is_concatenate n \<and> try_get_args n 1 ''dim'' (IntArg 0) = IntArg 1)"

section \<open>The work-queue shared by the three passes\<close>

text \<open>
  Each pass is the loop
  \<^verbatim>\<open>while queue: n = queue.pop(0); <body>; for succ in nx_graph.successors(n): queue.append(succ)\<close>.
  The body either raises (\<open>Inl\<close>), or executes \<^verbatim>\<open>continue\<close> (\<open>Inr None\<close>: the successors
  are not appended), or falls through with the updated graph. A loop that never empties
  its queue never returns: the value \<open>None\<close>.
\<close>

partial_function (option) work_queue ::
  "(nat \<Rightarrow> graph \<Rightarrow> error + graph option) \<Rightarrow> nx_graph \<Rightarrow> nat list \<Rightarrow> graph \<Rightarrow> (error + graph) option"
where
  "work_queue body G queue g =
     (case queue of
        [] \<Rightarrow> Some (Inr g)
      | n # rest \<Rightarrow>
          (case body n g of
             Inl e \<Rightarrow> Some (Inl e)
           | Inr None \<Rightarrow> work_queue body G rest g
           | Inr (Some g') \<Rightarrow>
               (case successors G n of
                  Inl e \<Rightarrow> Some (Inl e)
                | Inr succs \<Rightarrow> work_queue body G (rest @ succs) g')))"

section \<open>Annotation pass\<close>

text \<open>
  \<^verbatim>\<open>is_untouchable_op\<close> is imported from \<^verbatim>\<open>inspection\<close>, which is not among the sources, and
  the spec does not say what it computes: it is a parameter of the pass. The eight
  assignments to \<^verbatim>\<open>n.meta\<close> of the loop body are \<open>annotate_node\<close>; \<^verbatim>\<open>is_untouchable_op(n)\<close>
  is called when the six flags are already written.
\<close>

definition annotate_node :: "registry \<Rightarrow> (node \<Rightarrow> bool) \<Rightarrow> node \<Rightarrow> error + node" where
  "annotate_node parent is_untouchable_op n =
     (case is_features_propagating_op parent n of
        Inl e \<Rightarrow> Inl e
      | Inr fp \<Rightarrow>
          (case is_features_defining_op parent n of
             Inl e \<Rightarrow> Inl e
           | Inr fd \<Rightarrow>
               (let n6 = n\<lparr>meta := (meta n)\<lparr>
                      features_propagating := Some fp,
                      features_defining := Some fd,
                      shared_input_features := Some (is_shared_input_features_op n),
                      flatten := Some (is_flatten n),
                      squeeze := Some (is_squeeze n),
                      features_concatenate := Some (is_features_concatenate n)\<rparr>\<rparr>
                in Inr (n6\<lparr>meta := (meta n6)\<lparr>
                      untouchable := Some (is_untouchable_op n6),
                      zero_or_one_input := Some (is_zero_or_one_input_op n6)\<rparr>\<rparr>))))"

definition add_node_properties_body ::
  "registry \<Rightarrow> (node \<Rightarrow> bool) \<Rightarrow> nat \<Rightarrow> graph \<Rightarrow> error + graph option" where
  "add_node_properties_body parent is_untouchable_op i g =
     (case annotate_node parent is_untouchable_op (g ! i) of
        Inl e \<Rightarrow> Inl e
      | Inr n \<Rightarrow> Inr (Some (g[i := n])))"

definition add_node_properties ::
  "registry \<Rightarrow> (node \<Rightarrow> bool) \<Rightarrow> graph \<Rightarrow> (error + graph) option" where
  "add_node_properties parent is_untouchable_op g =
     work_queue (add_node_properties_body parent is_untouchable_op)
       (fx_to_nx_graph g) (get_input_nodes g) g"

section \<open>Feature-calculator propagation pass\<close>

text \<open>An extension rule is a callable \<^verbatim>\<open>rule(n, mod)\<close> returning a calculator or \<^verbatim>\<open>None\<close>.\<close>

type_synonym rule = "registry \<Rightarrow> graph \<Rightarrow> nat \<Rightarrow> features_calculator option"

text \<open>\<^verbatim>\<open>for rule in extra_rules: fc = rule(n, mod); if fc: break\<close>\<close>

fun first_rule :: "rule list \<Rightarrow> registry \<Rightarrow> graph \<Rightarrow> nat \<Rightarrow> features_calculator option" where
  "first_rule [] parent g i = None"
| "first_rule (r # rs) parent g i =
     (case r parent g i of Some fc \<Rightarrow> Some fc | None \<Rightarrow> first_rule rs parent g i)"

text \<open>\<^verbatim>\<open>len(input_shape) - d\<close>: a \<^verbatim>\<open>TypeError\<close> unless \<^verbatim>\<open>d\<close> is an integer.\<close>

definition len_minus :: "int list \<Rightarrow> arg \<Rightarrow> error + int" where
  "len_minus input_shape d =
     (case d of IntArg k \<Rightarrow> Inr (int (length input_shape) - k) | _ \<Rightarrow> Inl TypeError)"

text \<open>The asserted condition \<^verbatim>\<open>d != 0 and len(input_shape) - d != 0\<close>.\<close>

definition not_batch :: "int list \<Rightarrow> arg \<Rightarrow> error + bool" where
  "not_batch input_shape d =
     (if d = IntArg 0 then Inr False
      else (case len_minus input_shape d of Inl e \<Rightarrow> Inl e | Inr k \<Rightarrow> Inr (k \<noteq> 0)))"

text \<open>The condition \<^verbatim>\<open>d == 1 or len(input_shape) - d == 1\<close>.\<close>

definition includes_channels :: "int list \<Rightarrow> arg \<Rightarrow> error + bool" where
  "includes_channels input_shape d =
     (if d = IntArg 1 then Inr True
      else (case len_minus input_shape d of Inl e \<Rightarrow> Inl e | Inr k \<Rightarrow> Inr (k = 1)))"

text \<open>Python's \<^verbatim>\<open>xs[2:stop]\<close>: a negative stop counts from the end, and both ends are clamped.\<close>

definition slice_from_2 :: "int list \<Rightarrow> int option \<Rightarrow> int list" where
  "slice_from_2 xs stop =
     (case stop of
        None \<Rightarrow> drop 2 xs
      | Some e \<Rightarrow>
          (let L = int (length xs);
               hi = (if e < 0 then max 0 (L + e) else min e L)
           in take (nat hi - 2) (drop 2 xs)))"

text \<open>\<^verbatim>\<open>math.prod(input_shape[2:end_dim if end_dim != -1 else None])\<close>\<close>

definition flattened_size :: "int list \<Rightarrow> arg \<Rightarrow> error + int" where
  "flattened_size input_shape end_dim =
     (case end_dim of
        IntArg e \<Rightarrow> Inr (prod_list (slice_from_2 input_shape (if e \<noteq> - 1 then Some e else None)))
      | NoneArg \<Rightarrow> Inr (prod_list (slice_from_2 input_shape None))
      | _ \<Rightarrow> Inl TypeError)"

text \<open>The branch \<^verbatim>\<open>elif n.meta['flatten']\<close> of the pass.\<close>

definition flatten_calculator :: "graph \<Rightarrow> node \<Rightarrow> error + features_calculator" where
  "flatten_calculator g n =
     (case all_input_nodes n of
        [] \<Rightarrow> Inl IndexError
      | j # _ \<Rightarrow>
          (case features_calculator (meta (g ! j)) of
             None \<Rightarrow> Inl (KeyError ''features_calculator'')
           | Some ifc \<Rightarrow>
               (case tensor_meta (meta (g ! j)) of
                  None \<Rightarrow> Inl (KeyError ''tensor_meta'')
                | Some input_shape \<Rightarrow>
                    (let start_dim = try_get_args n 1 ''start_dim'' (IntArg 0);
                         end_dim = try_get_args n 2 ''end_dim'' (IntArg (- 1))
                     in case not_batch input_shape start_dim of
                          Inl e \<Rightarrow> Inl e
                        | Inr False \<Rightarrow> Inl AssertionError_flatten_batch
                        | Inr True \<Rightarrow>
                            (case includes_channels input_shape start_dim of
                               Inl e \<Rightarrow> Inl e
                             | Inr True \<Rightarrow>
                                 (case flattened_size input_shape end_dim of
                                    Inl e \<Rightarrow> Inl e
                                  | Inr sz \<Rightarrow> Inr (FlattenFeaturesCalculator ifc sz))
                             | Inr False \<Rightarrow> Inr ifc)))))"

text \<open>The branch \<^verbatim>\<open>elif n.meta['squeeze']\<close> of the pass.\<close>

definition squeeze_calculator :: "graph \<Rightarrow> node \<Rightarrow> error + features_calculator" where
  "squeeze_calculator g n =
     (case all_input_nodes n of
        [] \<Rightarrow> Inl IndexError
      | j # _ \<Rightarrow>
          (case features_calculator (meta (g ! j)) of
             None \<Rightarrow> Inl (KeyError ''features_calculator'')
           | Some ifc \<Rightarrow>
               (case tensor_meta (meta (g ! j)) of
                  None \<Rightarrow> Inl (KeyError ''tensor_meta'')
                | Some input_shape \<Rightarrow>
                    (let dim = try_get_args n 1 ''dim'' NoneArg
                     in if dim = NoneArg then Inl ValueError_squeeze_without_dim
                        else case not_batch input_shape dim of
                          Inl e \<Rightarrow> Inl e
                        | Inr False \<Rightarrow> Inl AssertionError_squeeze_batch
                        | Inr True \<Rightarrow>
                            (case includes_channels input_shape dim of
                               Inl e \<Rightarrow> Inl e
                             | Inr True \<Rightarrow>
                                 (if length input_shape > 2
                                  then Inr (FlattenFeaturesCalculator ifc (input_shape ! 2))
                                  else Inl IndexError)
                             | Inr False \<Rightarrow> Inr ifc)))))"

text \<open>\<^verbatim>\<open>n.all_input_nodes[0].meta['features_calculator']\<close>\<close>

definition first_input_calculator :: "graph \<Rightarrow> node \<Rightarrow> error + features_calculator" where
  "first_input_calculator g n =
     (case all_input_nodes n of
        [] \<Rightarrow> Inl IndexError
      | j # _ \<Rightarrow>
          (case features_calculator (meta (g ! j)) of
             None \<Rightarrow> Inl (KeyError ''features_calculator'')
           | Some ifc \<Rightarrow> Inr ifc))"

text \<open>\<^verbatim>\<open>ConcatFeaturesCalculator([prev.meta['features_calculator'] for prev in n.all_input_nodes])\<close>\<close>

definition concat_calculator :: "graph \<Rightarrow> node \<Rightarrow> error + features_calculator" where
  "concat_calculator g n =
     (case those (map (\<lambda>j. features_calculator (meta (g ! j))) (all_input_nodes n)) of
        None \<Rightarrow> Inl (KeyError ''features_calculator'')
      | Some fcs \<Rightarrow> Inr (ConcatFeaturesCalculator fcs))"

text \<open>\<^verbatim>\<open>ConstFeaturesCalculator(n.meta['tensor_meta'].shape[1])\<close>\<close>

definition const_calculator :: "node \<Rightarrow> error + features_calculator" where
  "const_calculator n =
     (case tensor_meta (meta n) of
        None \<Rightarrow> Inl (KeyError ''tensor_meta'')
      | Some shape \<Rightarrow>
          (if length shape > 1 then Inr (ConstFeaturesCalculator (shape ! 1))
           else Inl IndexError))"

text \<open>The \<^verbatim>\<open>elif\<close> chain on the flags of the node, after the extension rules gave nothing.\<close>

definition calculator_from_flags :: "graph \<Rightarrow> nat \<Rightarrow> error + features_calculator" where
  "calculator_from_flags g i =
     (let n = g ! i in
      case flatten (meta n) of
        None \<Rightarrow> Inl (KeyError ''flatten'')
      | Some True \<Rightarrow> flatten_calculator g n
      | Some False \<Rightarrow>
      (case squeeze (meta n) of
        None \<Rightarrow> Inl (KeyError ''squeeze'')
      | Some True \<Rightarrow> squeeze_calculator g n
      | Some False \<Rightarrow>
      (case features_concatenate (meta n) of
        None \<Rightarrow> Inl (KeyError ''features_concatenate'')
      | Some True \<Rightarrow> concat_calculator g n
      | Some False \<Rightarrow>
      (case shared_input_features (meta n) of
        None \<Rightarrow> Inl (KeyError ''shared_input_features'')
      | Some True \<Rightarrow> first_input_calculator g n
      | Some False \<Rightarrow>
      (case features_defining (meta n) of
        None \<Rightarrow> Inl (KeyError ''features_defining'')
      | Some True \<Rightarrow> const_calculator n
      | Some False \<Rightarrow>
      (case features_propagating (meta n) of
        None \<Rightarrow> Inl (KeyError ''features_propagating'')
      | Some True \<Rightarrow> first_input_calculator g n
      | Some False \<Rightarrow> Inl (ValueError_unsupported_node i)))))))"

definition set_features_calculator :: "graph \<Rightarrow> nat \<Rightarrow> features_calculator \<Rightarrow> graph" where
  "set_features_calculator g i fc =
     g[i := (g ! i)\<lparr>meta := (meta (g ! i))\<lparr>features_calculator := Some fc\<rparr>\<rparr>]"

definition add_features_calculator_body ::
  "registry \<Rightarrow> rule list \<Rightarrow> nat \<Rightarrow> graph \<Rightarrow> error + graph option" where
  "add_features_calculator_body parent extra_rules i g =
     (if list_ex (\<lambda>j. features_calculator (meta (g ! j)) = None) (all_input_nodes (g ! i))
      then Inr None
      else
        (case first_rule extra_rules parent g i of
           Some fc \<Rightarrow> Inr (Some (set_features_calculator g i fc))
         | None \<Rightarrow>
             (case calculator_from_flags g i of
                Inl e \<Rightarrow> Inl e
              | Inr fc \<Rightarrow> Inr (Some (set_features_calculator g i fc)))))"

definition add_features_calculator ::
  "registry \<Rightarrow> rule list \<Rightarrow> graph \<Rightarrow> (error + graph) option" where
  "add_features_calculator parent extra_rules g =
     work_queue (add_features_calculator_body parent extra_rules)
       (fx_to_nx_graph g) (get_input_nodes g) g"

section \<open>Back-reference association pass\<close>

definition set_input_features_set_by :: "graph \<Rightarrow> nat \<Rightarrow> set_by \<Rightarrow> graph" where
  "set_input_features_set_by g i v =
     g[i := (g ! i)\<lparr>meta := (meta (g ! i))\<lparr>input_features_set_by := Some v\<rparr>\<rparr>]"

text \<open>
  The value assigned to \<^verbatim>\<open>n.meta['input_features_set_by']\<close> in the branch
  \<^verbatim>\<open>if 'input_features_set_by' in prev.meta\<close>, where \<open>p\<close> is the position of \<^verbatim>\<open>prev\<close>, \<open>sb\<close> its
  own back-reference and \<open>i\<close> the position of \<^verbatim>\<open>n\<close>.
\<close>

definition set_by_from_prev :: "graph \<Rightarrow> nat \<Rightarrow> nat \<Rightarrow> set_by \<Rightarrow> error + set_by" where
  "set_by_from_prev g i p sb =
     (let prev = g ! p in
      case flatten (meta prev) of
        None \<Rightarrow> Inl (KeyError ''flatten'')
      | Some True \<Rightarrow>
          (case all_input_nodes prev of
             [] \<Rightarrow> Inl IndexError
           | j # _ \<Rightarrow>
               (case tensor_meta (meta (g ! j)) of
                  None \<Rightarrow> Inl (KeyError ''tensor_meta'')
                | Some input_shape \<Rightarrow>
                    (let start_dim = try_get_args prev 1 ''start_dim'' (IntArg 0)
                     in case not_batch input_shape start_dim of
                          Inl e \<Rightarrow> Inl e
                        | Inr False \<Rightarrow> Inl AssertionError_flatten_batch
                        | Inr True \<Rightarrow>
                            (case includes_channels input_shape start_dim of
                               Inl e \<Rightarrow> Inl e
                             | Inr True \<Rightarrow> Inr (Single p)
                             | Inr False \<Rightarrow> Inr sb))))
      | Some False \<Rightarrow>
      (case squeeze (meta prev) of
        None \<Rightarrow> Inl (KeyError ''squeeze'')
      | Some True \<Rightarrow>
          (case all_input_nodes prev of
             [] \<Rightarrow> Inl IndexError
           | j # _ \<Rightarrow>
               (case tensor_meta (meta (g ! j)) of
                  None \<Rightarrow> Inl (KeyError ''tensor_meta'')
                | Some input_shape \<Rightarrow>
                    (let dim = try_get_args prev 1 ''dim'' NoneArg
                     in if dim = NoneArg then Inl ValueError_squeeze_without_dim
                        else case not_batch input_shape dim of
                          Inl e \<Rightarrow> Inl e
                        | Inr False \<Rightarrow> Inl AssertionError_squeeze_batch
                        | Inr True \<Rightarrow>
                            (case includes_channels input_shape dim of
                               Inl e \<Rightarrow> Inl e
                             | Inr True \<Rightarrow> Inr (Single p)
                             | Inr False \<Rightarrow> Inr sb))))
      | Some False \<Rightarrow>
      (case features_concatenate (meta prev) of
        None \<Rightarrow> Inl (KeyError ''features_concatenate'')
      | Some True \<Rightarrow> Inr (Single p)
      | Some False \<Rightarrow>
      (case features_defining (meta prev) of
        None \<Rightarrow> Inl (KeyError ''features_defining'')
      | Some True \<Rightarrow> Inr (Single p)
      | Some False \<Rightarrow>
      (case features_propagating (meta prev) of
        None \<Rightarrow> Inl (KeyError ''features_propagating'')
      | Some True \<Rightarrow> Inr sb
      | Some False \<Rightarrow> Inl (ValueError_unsupported_node i))))))"

definition associate_input_features_body :: "nat \<Rightarrow> graph \<Rightarrow> error + graph option" where
  "associate_input_features_body i g =
     (let n = g ! i; input_nodes = all_input_nodes n in
      if length input_nodes > 0 then
        (case features_concatenate (meta n) of
           None \<Rightarrow> Inl (KeyError ''features_concatenate'')
         | Some True \<Rightarrow>
             (if list_ex (\<lambda>j. input_features_set_by (meta (g ! j)) = None) input_nodes
              then Inr (Some g)
              else Inr (Some (set_input_features_set_by g i (Multiple input_nodes))))
         | Some False \<Rightarrow>
             (let p = hd input_nodes in
              case input_features_set_by (meta (g ! p)) of
                None \<Rightarrow> Inr (Some g)
              | Some sb \<Rightarrow>
                  (case set_by_from_prev g i p sb of
                     Inl e \<Rightarrow> Inl e
                   | Inr v \<Rightarrow> Inr (Some (set_input_features_set_by g i v)))))
      else Inr (Some (set_input_features_set_by g i (Single i))))"

definition associate_input_features :: "graph \<Rightarrow> (error + graph) option" where
  "associate_input_features g =
     work_queue associate_input_features_body (fx_to_nx_graph g) (get_input_nodes g) g"

section \<open>The three passes in their order\<close>

text \<open>
  Annotation, then feature-calculator propagation, then back-reference association; an
  error of one pass ends the run, and a pass that never returns never starts the next.
\<close>

definition run_passes ::
  "registry \<Rightarrow> (node \<Rightarrow> bool) \<Rightarrow> rule list \<Rightarrow> graph \<Rightarrow> (error + graph) option" where
  "run_passes parent is_untouchable_op extra_rules g =
     (case add_node_properties parent is_untouchable_op g of
        None \<Rightarrow> None
      | Some (Inl e) \<Rightarrow> Some (Inl e)
      | Some (Inr g1) \<Rightarrow>
          (case add_features_calculator parent extra_rules g1 of
             None \<Rightarrow> None
           | Some (Inl e) \<Rightarrow> Some (Inl e)
           | Some (Inr g2) \<Rightarrow> associate_input_features g2))"

declare work_queue.simps [code]

section \<open>Example graphs\<close>

text \<open>A node as tracing and shape inference leave it: only \<^verbatim>\<open>tensor_meta\<close> is in \<^verbatim>\<open>meta\<close>.\<close>

definition fresh_meta :: "int list \<Rightarrow> meta_dict" where
  "fresh_meta shape =
     \<lparr>features_propagating = None, features_defining = None,
      shared_input_features = None, flatten = None, squeeze = None,
      features_concatenate = None, untouchable = None, zero_or_one_input = None,
      tensor_meta = Some shape, features_calculator = None,
      input_features_set_by = None\<rparr>"

definition fx_node ::
  "opcode \<Rightarrow> target \<Rightarrow> nat list \<Rightarrow> arg list \<Rightarrow> (string \<times> arg) list \<Rightarrow> int list \<Rightarrow> node" where
  "fx_node k t ins as kws shape =
     \<lparr>op = k, target = t, all_input_nodes = ins, args = as, kwargs = kws,
      meta = fresh_meta shape\<rparr>"

text \<open>The value of the calculator and the back-reference of node \<open>i\<close> in the result of a run.\<close>

definition calculator_at :: "(error + graph) option \<Rightarrow> nat \<Rightarrow> features_calculator option" where
  "calculator_at r i =
     (case r of Some (Inr g) \<Rightarrow> features_calculator (meta (g ! i)) | _ \<Rightarrow> None)"

definition set_by_at :: "(error + graph) option \<Rightarrow> nat \<Rightarrow> set_by option" where
  "set_by_at r i =
     (case r of Some (Inr g) \<Rightarrow> input_features_set_by (meta (g ! i)) | _ \<Rightarrow> None)"

text \<open>The six classifying flags of a node, in the order of the pass.\<close>

definition six_flags :: "node \<Rightarrow> bool option list" where
  "six_flags n =
     [features_propagating (meta n), features_defining (meta n),
      shared_input_features (meta n), flatten (meta n), squeeze (meta n),
      features_concatenate (meta n)]"

definition flags_at :: "(error + graph) option \<Rightarrow> nat \<Rightarrow> bool option list" where
  "flags_at r i = (case r of Some (Inr g) \<Rightarrow> six_flags (g ! i) | _ \<Rightarrow> [])"

text \<open>
  Two parallel convolutions (16 and 24 channels) on one input, concatenated along the
  channels, then a third convolution:
  \<^verbatim>\<open>conv3(torch.cat((conv1(x), conv2(x)), 1))\<close>.
\<close>

definition conv_registry :: registry where
  "conv_registry = [''conv1'' \<mapsto> Conv2d, ''conv2'' \<mapsto> Conv2d, ''conv3'' \<mapsto> Conv2d]"

definition concat_graph :: graph where
  "concat_graph =
    [fx_node placeholder (Name ''x'') [] [] [] [1, 3, 8, 8],
     fx_node call_module (Name ''conv1'') [0] [NodeArg 0] [] [1, 16, 8, 8],
     fx_node call_module (Name ''conv2'') [0] [NodeArg 0] [] [1, 24, 8, 8],
     fx_node call_function (Func torch_cat) [1, 2]
       [SeqArg [NodeArg 1, NodeArg 2], IntArg 1] [] [1, 40, 8, 8],
     fx_node call_module (Name ''conv3'') [3] [NodeArg 3] [] [1, 8, 8, 8],
     fx_node output_op (Name ''output'') [4] [NodeArg 4] [] [1, 8, 8, 8]]"

text \<open>\<^verbatim>\<open>torch.flatten(x, *extra)\<close> on an input of shape \<^verbatim>\<open>(1, 32, 5, 3)\<close>.\<close>

definition flatten_graph :: "arg list \<Rightarrow> int list \<Rightarrow> graph" where
  "flatten_graph extra out_shape =
    [fx_node placeholder (Name ''x'') [] [] [] [1, 32, 5, 3],
     fx_node call_function (Func torch_flatten) [0] (NodeArg 0 # extra) [] out_shape,
     fx_node output_op (Name ''output'') [1] [NodeArg 1] [] out_shape]"

text \<open>\<^verbatim>\<open>x + 1\<close>: an addition with a single tensor input.\<close>

definition add_constant_graph :: graph where
  "add_constant_graph =
    [fx_node placeholder (Name ''x'') [] [] [] [1, 3, 8, 8],
     fx_node call_function (Func operator_add) [0] [NodeArg 0, IntArg 1] [] [1, 3, 8, 8],
     fx_node output_op (Name ''output'') [1] [NodeArg 1] [] [1, 3, 8, 8]]"

text \<open>\<^verbatim>\<open>torch.sigmoid(x)\<close>: a function that no classifier knows.\<close>

definition sigmoid_graph :: graph where
  "sigmoid_graph =
    [fx_node placeholder (Name ''x'') [] [] [] [1, 3, 8, 8],
     fx_node call_function (Func (other_func ''sigmoid'')) [0] [NodeArg 0] [] [1, 3, 8, 8],
     fx_node output_op (Name ''output'') [1] [NodeArg 1] [] [1, 3, 8, 8]]"

text \<open>
  \<^verbatim>\<open>torch.cat((x, self.w), 1)\<close>: the \<^verbatim>\<open>get_attr\<close> node of the parameter \<^verbatim>\<open>w\<close> has no
  predecessor and is not a placeholder.
\<close>

definition get_attr_graph :: graph where
  "get_attr_graph =
    [fx_node placeholder (Name ''x'') [] [] [] [1, 3, 8, 8],
     fx_node get_attr (Name ''w'') [] [] [] [1, 5, 8, 8],
     fx_node call_function (Func torch_cat) [0, 1]
       [SeqArg [NodeArg 0, NodeArg 1], IntArg 1] [] [1, 8, 8, 8],
     fx_node output_op (Name ''output'') [2] [NodeArg 2] [] [1, 8, 8, 8]]"



text \<open>
  \<^verbatim>\<open>torch.cat((x, self.w), 1) + 1\<close>: an addition with a single tensor input, behind a
  concatenation one of whose inputs is a \<^verbatim>\<open>get_attr\<close> node.
\<close>

definition cat_attr_add_graph :: graph where
  "cat_attr_add_graph =
    [fx_node placeholder (Name ''x'') [] [] [] [1, 3, 8, 8],
     fx_node get_attr (Name ''w'') [] [] [] [1, 5, 8, 8],
     fx_node call_function (Func torch_cat) [0, 1]
       [SeqArg [NodeArg 0, NodeArg 1], IntArg 1] [] [1, 8, 8, 8],
     fx_node call_function (Func operator_add) [2] [NodeArg 2, IntArg 1] [] [1, 8, 8, 8],
     fx_node output_op (Name ''output'') [3] [NodeArg 3] [] [1, 8, 8, 8]]"

section \<open>Auxiliary notions for the proofs\<close>

text \<open>The graph a run returns (the empty graph when it fails or does not return).\<close>

definition graph_of :: "(error + graph) option \<Rightarrow> graph" where
  "graph_of r = (case r of Some (Inr g) \<Rightarrow> g | _ \<Rightarrow> [])"


text \<open>The edges of a graph, from a node to each of its users.\<close>

definition edges :: "graph \<Rightarrow> (nat \<times> nat) set" where
  "edges g = {(p, m). m < length g \<and> p \<in> set (all_input_nodes (g ! m))}"

definition edge_list :: "graph \<Rightarrow> (nat \<times> nat) list" where
  "edge_list g = concat (map (\<lambda>n. map (\<lambda>i. (i, n)) (all_input_nodes (g ! n))) [0..<length g])"

definition nx_succs :: "nx_graph \<Rightarrow> nat \<Rightarrow> nat set" where
  "nx_succs G x = (case G x of None \<Rightarrow> {} | Some ms \<Rightarrow> set ms)"

text \<open>The relation "is a successor of" of a \<^verbatim>\<open>networkx\<close> graph.\<close>

definition succ_rel :: "nx_graph \<Rightarrow> (nat \<times> nat) set" where
  "succ_rel G = {(m, n). \<exists>ms. G n = Some ms \<and> m \<in> set ms}"

text \<open>\<^verbatim>\<open>torch.fx\<close> keeps the nodes in topological order: every input of a node precedes it.\<close>

definition topological :: "graph \<Rightarrow> bool" where
  "topological g = list_all (\<lambda>m. list_all (\<lambda>p. p < m) (all_input_nodes (g ! m))) [0..<length g]"

text \<open>Two nodes that differ at most in what the passes write.\<close>

definition same_static :: "node \<Rightarrow> node \<Rightarrow> bool" where
  "same_static n n' \<longleftrightarrow>
     op n' = op n \<and> target n' = target n \<and> all_input_nodes n' = all_input_nodes n
     \<and> args n' = args n \<and> kwargs n' = kwargs n
     \<and> tensor_meta (meta n') = tensor_meta (meta n)"

text \<open>The six flags of \<open>a\<close> are the values of the six classifiers on \<open>n\<close>.\<close>

definition classified :: "registry \<Rightarrow> node \<Rightarrow> node \<Rightarrow> bool" where
  "classified parent n a \<longleftrightarrow>
     (\<exists>fp fd. is_features_propagating_op parent n = Inr fp
        \<and> is_features_defining_op parent n = Inr fd
        \<and> six_flags a = [Some fp, Some fd, Some (is_shared_input_features_op n),
             Some (is_flatten n), Some (is_squeeze n), Some (is_features_concatenate n)])"

text \<open>Two nodes that differ at most in the calculator attached.\<close>

definition same_but_calculator :: "node \<Rightarrow> node \<Rightarrow> bool" where
  "same_but_calculator n n' \<longleftrightarrow>
     same_static n n' \<and> six_flags n' = six_flags n
     \<and> untouchable (meta n') = untouchable (meta n)
     \<and> zero_or_one_input (meta n') = zero_or_one_input (meta n)
     \<and> input_features_set_by (meta n') = input_features_set_by (meta n)"

text \<open>
  The invariant of the pass: the graph differs from the initial one in calculators only,
  and a node without calculator that is an input or has predecessors, all of which have
  a calculator, is in the queue.
\<close>

definition propagation_inv :: "graph \<Rightarrow> nat list \<Rightarrow> graph \<Rightarrow> bool" where
  "propagation_inv g q h \<longleftrightarrow>
     length h = length g
     \<and> (\<forall>k<length g. same_but_calculator (g ! k) (h ! k))
     \<and> (\<forall>m<length g.
           features_calculator (meta (h ! m)) = None
           \<and> (op (g ! m) = placeholder \<or> all_input_nodes (g ! m) \<noteq> [])
           \<and> (\<forall>p \<in> set (all_input_nodes (g ! m)). features_calculator (meta (h ! p)) \<noteq> None)
           \<longrightarrow> m \<in> set q)"

text \<open>
  A skip connection: \<^verbatim>\<open>torch.cat((x, conv2(conv1(x))), 1)\<close>. The concatenation is popped a
  first time before its second input has a calculator.
\<close>

definition skip_graph :: graph where
  "skip_graph =
    [fx_node placeholder (Name ''x'') [] [] [] [1, 3, 8, 8],
     fx_node call_module (Name ''conv1'') [0] [NodeArg 0] [] [1, 16, 8, 8],
     fx_node call_module (Name ''conv2'') [1] [NodeArg 1] [] [1, 24, 8, 8],
     fx_node call_function (Func torch_cat) [0, 2]
       [SeqArg [NodeArg 0, NodeArg 2], IntArg 1] [] [1, 27, 8, 8],
     fx_node output_op (Name ''output'') [3] [NodeArg 3] [] [1, 27, 8, 8]]"

text \<open>
  The skip-connection example when the concatenation is popped the first time: after
  annotation, with the calculators of the input and of the first convolution attached.
\<close>

definition skip_state :: graph where
  "skip_state =
     set_features_calculator
       (set_features_calculator
          (graph_of (add_node_properties conv_registry (\<lambda>n. False) skip_graph))
          0 (ConstFeaturesCalculator 3))
       1 (ConstFeaturesCalculator 16)"






text \<open>A graph on which no pass has run: no flag, no calculator, no back-reference.\<close>

definition fresh_graph :: "graph \<Rightarrow> bool" where
  "fresh_graph g =
     list_all (\<lambda>n. six_flags n = [None, None, None, None, None, None]
                 \<and> features_calculator (meta n) = None
                 \<and> input_features_set_by (meta n) = None) g"

text \<open>
  The invariant of the annotation pass on a supported graph without flags: the queue
  holds nodes of the graph; a node is as it was or carries its classification, and
  nothing else changed; an input, or a user of a classified node, that is not classified
  itself is in the queue.
\<close>

definition annotation_inv :: "registry \<Rightarrow> graph \<Rightarrow> nat list \<Rightarrow> graph \<Rightarrow> bool" where
  "annotation_inv parent g q h \<longleftrightarrow>
     length h = length g
     \<and> (\<forall>n \<in> set q. n < length g)
     \<and> (\<forall>i<length g. same_static (g ! i) (h ! i)
           \<and> features_calculator (meta (h ! i)) = features_calculator (meta (g ! i))
           \<and> input_features_set_by (meta (h ! i)) = input_features_set_by (meta (g ! i))
           \<and> (h ! i = g ! i \<or> classified parent (g ! i) (h ! i)))
     \<and> (\<forall>m<length g.
           \<not> classified parent (g ! m) (h ! m)
           \<and> (op (g ! m) = placeholder
               \<or> (\<exists>p \<in> set (all_input_nodes (g ! m)). p < length g
                     \<and> classified parent (g ! p) (h ! p)))
           \<longrightarrow> m \<in> set q)"

text \<open>Two graphs whose nodes differ at most in what the passes write.\<close>

definition same_static_graph :: "graph \<Rightarrow> graph \<Rightarrow> bool" where
  "same_static_graph g g' \<longleftrightarrow>
     length g' = length g \<and> (\<forall>i<length g. same_static (g ! i) (g' ! i))"

text \<open>Two nodes that differ at most in the back-reference.\<close>

definition same_but_set_by :: "node \<Rightarrow> node \<Rightarrow> bool" where
  "same_but_set_by n n' \<longleftrightarrow>
     same_static n n' \<and> six_flags n' = six_flags n
     \<and> untouchable (meta n') = untouchable (meta n)
     \<and> zero_or_one_input (meta n') = zero_or_one_input (meta n)
     \<and> features_calculator (meta n') = features_calculator (meta n)"

text \<open>
  The association pass assigns a back-reference to node \<open>m\<close> when it pops it: \<open>m\<close> has no
  input, or it is a concatenation and all its inputs have a back-reference, or it is not
  and its first input has one.
\<close>

definition association_ready :: "graph \<Rightarrow> nat \<Rightarrow> bool" where
  "association_ready h m =
     (case all_input_nodes (h ! m) of
        [] \<Rightarrow> True
      | p # ps \<Rightarrow>
          (if features_concatenate (meta (h ! m)) = Some True
           then list_all (\<lambda>j. input_features_set_by (meta (h ! j)) \<noteq> None) (p # ps)
           else input_features_set_by (meta (h ! p)) \<noteq> None))"

text \<open>
  The invariant of the association pass: the graph differs from the initial one in
  back-references only, and a node without back-reference that is an input or has
  predecessors, and that the pass would give one, is in the queue.
\<close>

definition association_inv :: "graph \<Rightarrow> nat list \<Rightarrow> graph \<Rightarrow> bool" where
  "association_inv g q h \<longleftrightarrow>
     length h = length g
     \<and> (\<forall>k<length g. same_but_set_by (g ! k) (h ! k))
     \<and> (\<forall>m<length g.
           input_features_set_by (meta (h ! m)) = None
           \<and> (op (g ! m) = placeholder \<or> all_input_nodes (g ! m) \<noteq> [])
           \<and> association_ready h m
           \<longrightarrow> m \<in> set q)"

text \<open>
  \<^verbatim>\<open>is_untouchable_op\<close> looks at nothing that the passes write but the six flags.
\<close>

definition static_untouchable :: "(node \<Rightarrow> bool) \<Rightarrow> bool" where
  "static_untouchable u \<longleftrightarrow>
     (\<forall>n n'. same_static n n' \<and> six_flags n' = six_flags n \<longrightarrow> u n' = u n)"

text \<open>Two graphs that differ at most in the calculators and the back-references.\<close>

definition same_but_results :: "graph \<Rightarrow> graph \<Rightarrow> bool" where
  "same_but_results h h' \<longleftrightarrow>
     length h' = length h
     \<and> (\<forall>k<length h. same_static (h ! k) (h' ! k) \<and> six_flags (h' ! k) = six_flags (h ! k)
           \<and> untouchable (meta (h' ! k)) = untouchable (meta (h ! k))
           \<and> zero_or_one_input (meta (h' ! k)) = zero_or_one_input (meta (h ! k)))"

text \<open>
  Extension rules that look at nothing that the propagation and association passes
  write: on graphs that differ in calculators and back-references only they answer the
  same for every node.
\<close>

definition static_rules :: "rule list \<Rightarrow> bool" where
  "static_rules rules \<longleftrightarrow>
     (\<forall>r \<in> set rules. \<forall>parent h h' i.
        same_but_results h h' \<and> i < length h \<longrightarrow> r parent h' i = r parent h i)"

text \<open>
  The calculator that the propagation pass attaches to a node it does not skip: the one
  of the first extension rule that gives one, or else the one of the flags.
\<close>

definition new_calculator ::
  "registry \<Rightarrow> rule list \<Rightarrow> graph \<Rightarrow> nat \<Rightarrow> error + features_calculator" where
  "new_calculator parent rules h m =
     (case first_rule rules parent h m of
        Some fc \<Rightarrow> Inr fc
      | None \<Rightarrow> calculator_from_flags h m)"

text \<open>
  Every calculator in the graph is the one the pass would attach again: all predecessors
  of its node have a calculator, and computing the calculator of the node gives it.
\<close>

definition calculators_stable :: "registry \<Rightarrow> rule list \<Rightarrow> graph \<Rightarrow> bool" where
  "calculators_stable parent rules h \<longleftrightarrow>
     (\<forall>m<length h. \<forall>fc. features_calculator (meta (h ! m)) = Some fc \<longrightarrow>
        (\<forall>p \<in> set (all_input_nodes (h ! m)). features_calculator (meta (h ! p)) \<noteq> None)
        \<and> new_calculator parent rules h m = Inr fc)"

text \<open>
  The back-reference that the association pass assigns to a node it pops, if it assigns
  one.
\<close>

definition new_set_by :: "graph \<Rightarrow> nat \<Rightarrow> error + set_by option" where
  "new_set_by h n =
     (case all_input_nodes (h ! n) of
        [] \<Rightarrow> Inr (Some (Single n))
      | p # ps \<Rightarrow>
          (case features_concatenate (meta (h ! n)) of
             None \<Rightarrow> Inl (KeyError ''features_concatenate'')
           | Some True \<Rightarrow>
               (if list_ex (\<lambda>j. input_features_set_by (meta (h ! j)) = None) (p # ps)
                then Inr None else Inr (Some (Multiple (p # ps))))
           | Some False \<Rightarrow>
               (case input_features_set_by (meta (h ! p)) of
                  None \<Rightarrow> Inr None
                | Some sb \<Rightarrow>
                    (case set_by_from_prev h n p sb of
                       Inl e \<Rightarrow> Inl e
                     | Inr v \<Rightarrow> Inr (Some v)))))"

text \<open>Every back-reference in the graph is the one the pass would assign again.\<close>

definition back_references_stable :: "graph \<Rightarrow> bool" where
  "back_references_stable h \<longleftrightarrow>
     (\<forall>m<length h. \<forall>v. input_features_set_by (meta (h ! m)) = Some v \<longrightarrow>
        new_set_by h m = Inr (Some v))"

text \<open>
  An extension rule that looks at the kind and the target of its node only: the module
  \<^verbatim>\<open>conv2\<close> is given half of its 24 output channels.
\<close>

definition halved_conv2_rule :: rule where
  "halved_conv2_rule parent g i =
     (if op (g ! i) = call_module \<and> target (g ! i) = Name ''conv2''
      then Some (ConstFeaturesCalculator 12) else None)"

text \<open>
  An extension rule that looks at what the propagation pass writes: it answers for a
  node that already carries a calculator, and leaves every other node to the flags.
\<close>

definition stale_rule :: rule where
  "stale_rule parent g i =
     (if features_calculator (meta (g ! i)) = None then None
      else Some (ConstFeaturesCalculator 1))"

text \<open>
  The kinds of node that the six classifiers know: the output; a module of one of the
  listed features-propagating or features-defining classes; one of the listed
  features-propagating functions; an input without predecessors; an add or sub of more
  than one input node; a flatten or squeeze method or function; a concatenation along
  dimension 1.
\<close>

definition allow_listed :: "registry \<Rightarrow> node \<Rightarrow> bool" where
  "allow_listed parent n \<longleftrightarrow>
     op n = output_op
     \<or> (op n = call_module
         \<and> (case get_submodule parent (target n) of
               Inl e \<Rightarrow> False
             | Inr l \<Rightarrow> l \<in> {BatchNorm1d, BatchNorm2d, AvgPool1d, AvgPool2d, MaxPool1d, Dropout,
                             ReLU, ReLU6, ConstantPad1d, ConstantPad2d, Conv1d, Conv2d, Linear}))
     \<or> (op n = call_function \<and> target n \<in> {Func F_relu, Func F_relu6, Func F_log_softmax})
     \<or> (op n = placeholder \<and> all_input_nodes n = [])
     \<or> (op n = call_function
         \<and> target n \<in> {Func torch_add, Func operator_add, Func torch_sub, Func operator_sub}
         \<and> 1 < length (all_input_nodes n))
     \<or> (op n = call_method \<and> target n \<in> {Name ''flatten'', Name ''squeeze''})
     \<or> (op n = call_function \<and> target n \<in> {Func torch_flatten, Func torch_squeeze})
     \<or> (op n = call_function \<and> target n = Func torch_cat
         \<and> try_get_args n 1 ''dim'' (IntArg 0) = IntArg 1)"

section \<open>The work-queue: unfolding, invariants, termination\<close>

lemma work_queue_Nil: "work_queue body G [] g = Some (Inr g)"
  by (subst work_queue.simps) simp

lemma work_queue_Cons:
  "work_queue body G (n # rest) g =
     (case body n g of
        Inl e \<Rightarrow> Some (Inl e)
      | Inr None \<Rightarrow> work_queue body G rest g
      | Inr (Some g') \<Rightarrow>
          (case successors G n of
             Inl e \<Rightarrow> Some (Inl e)
           | Inr succs \<Rightarrow> work_queue body G (rest @ succs) g'))"
  by (subst work_queue.simps) simp

text \<open>
  Partial correctness: an invariant of the queue and the graph that every step keeps
  holds when the loop returns, and an error it returns is one a step can raise.
\<close>

lemma work_queue_partial:
  assumes run: "work_queue body G q g = Some r"
      and inv: "I q g"
      and skip: "\<And>n rest g. I (n # rest) g \<Longrightarrow> body n g = Inr None \<Longrightarrow> I rest g"
      and step: "\<And>n rest g g' succs. I (n # rest) g \<Longrightarrow> body n g = Inr (Some g') \<Longrightarrow>
                   successors G n = Inr succs \<Longrightarrow> I (rest @ succs) g'"
      and err1: "\<And>n rest g e. I (n # rest) g \<Longrightarrow> body n g = Inl e \<Longrightarrow> E e"
      and err2: "\<And>n rest g g' e. I (n # rest) g \<Longrightarrow> body n g = Inr (Some g') \<Longrightarrow>
                   successors G n = Inl e \<Longrightarrow> E e"
  shows "case r of Inl e \<Rightarrow> E e | Inr g' \<Rightarrow> I [] g'"
proof -
  let ?P = "\<lambda>b G' q g r. b = body \<longrightarrow> G' = G \<longrightarrow> I q g \<longrightarrow>
              (case r of Inl e \<Rightarrow> E e | Inr g' \<Rightarrow> I [] g')"
  have "?P body G q g r"
  proof (rule work_queue.raw_induct [where P = ?P, OF _ run], goal_cases)
    case (1 wq b G' q g r)
    show ?case
    proof (intro impI)
      assume b: "b = body" and G': "G' = G" and I: "I q g"
      note IH = 1(1) [rule_format] and eq = 1(2)
      show "case r of Inl e \<Rightarrow> E e | Inr g' \<Rightarrow> I [] g'"
      proof (cases q)
        case Nil
        with eq I show ?thesis by auto
      next
        case (Cons n rest)
        note q = Cons
        show ?thesis
        proof (cases "body n g")
          case (Inl e)
          with eq q b err1 [OF I [unfolded q]] show ?thesis by auto
        next
          case (Inr og)
          note bd = Inr
          show ?thesis
          proof (cases og)
            case None
            from skip [OF I [unfolded q]] bd None have "I rest g" by simp
            moreover from eq q b bd None have "wq body G rest g = Some r" by (simp add: G')
            ultimately show ?thesis using IH [of body G rest g r] by simp
          next
            case (Some g')
            note og = Some
            show ?thesis
            proof (cases "successors G n")
              case (Inl e)
              with eq q b bd og G' err2 [OF I [unfolded q]] show ?thesis by auto
            next
              case (Inr succs)
              from step [OF I [unfolded q]] bd og Inr have "I (rest @ succs) g'" by simp
              moreover from eq q b bd og Inr have "wq body G (rest @ succs) g' = Some r"
                by (simp add: G')
              ultimately show ?thesis using IH [of body G "rest @ succs" g' r] by simp
            qed
          qed
        qed
      qed
    qed
  qed
  with inv show ?thesis by simp
qed

text \<open>
  Termination: the loop returns when the successor relation is well-founded. Each step
  replaces the popped node by nodes below it, which decreases the queue in the multiset
  extension of the relation.
\<close>

lemma work_queue_terminates:
  assumes wf: "wf (succ_rel G)"
  shows "\<exists>r. work_queue body G q g = Some r"
proof -
  have wfm: "wf (mult (succ_rel G))" using wf by (rule wf_mult)
  have "\<forall>q g. mset q = M \<longrightarrow> (\<exists>r. work_queue body G q g = Some r)" for M
  proof (induction M rule: wf_induct_rule [OF wfm])
    case (1 M)
    show ?case
    proof (intro allI impI)
      fix q g assume M: "mset q = M"
      show "\<exists>r. work_queue body G q g = Some r"
      proof (cases q)
        case Nil
        then show ?thesis by (simp add: work_queue_Nil)
      next
        case (Cons n rest)
        have less_rest: "(mset rest, M) \<in> mult (succ_rel G)"
          using one_step_implies_mult [of "{#n#}" "{#}" "succ_rel G" "mset rest"] M Cons
          by simp
        show ?thesis
        proof (cases "body n g")
          case (Inl e)
          with Cons show ?thesis by (simp add: work_queue_Cons)
        next
          case (Inr og)
          show ?thesis
          proof (cases og)
            case None
            with Inr Cons 1 [OF less_rest] show ?thesis by (simp add: work_queue_Cons)
          next
            case (Some g')
            show ?thesis
            proof (cases "successors G n")
              case (Inl e)
              with Some Inr Cons show ?thesis by (simp add: work_queue_Cons)
            next
              case succs: (Inr succs)
              then have "\<forall>k \<in> set succs. (k, n) \<in> succ_rel G"
                by (auto simp: successors_def succ_rel_def split: option.splits)
              then have "(mset rest + mset succs, mset rest + {#n#}) \<in> mult (succ_rel G)"
                by (intro one_step_implies_mult) auto
              then have "(mset (rest @ succs), M) \<in> mult (succ_rel G)"
                using M Cons by simp
              from 1 [OF this] succs Some Inr Cons show ?thesis
                by (simp add: work_queue_Cons)
            qed
          qed
        qed
      qed
    qed
  qed
  then show ?thesis by blast
qed

section \<open>The graph adapter\<close>

lemma add_edge_apply:
  "add_edge G u v x =
     (if x = u then Some (case G u of None \<Rightarrow> [v] | Some su \<Rightarrow> if v \<in> set su then su else su @ [v])
      else if x = v then Some (case G v of None \<Rightarrow> [] | Some sv \<Rightarrow> sv)
      else G x)"
  by (auto simp: add_edge_def Let_def split: option.splits)

lemma add_edge_None: "add_edge G u v x = None \<longleftrightarrow> G x = None \<and> x \<noteq> u \<and> x \<noteq> v"
  by (simp add: add_edge_apply)

lemma add_edge_succs: "nx_succs (add_edge G u v) x = nx_succs G x \<union> (if x = u then {v} else {})"
  by (auto simp: nx_succs_def add_edge_apply split: option.splits)

lemma fold_add_edge_None:
  "fold (\<lambda>(u, v) G. add_edge G u v) es G x = None \<longleftrightarrow>
     G x = None \<and> x \<notin> fst ` set es \<and> x \<notin> snd ` set es"
  by (induction es arbitrary: G) (auto simp: add_edge_None)

lemma fold_add_edge_succs:
  "nx_succs (fold (\<lambda>(u, v) G. add_edge G u v) es G) x = nx_succs G x \<union> {v. (x, v) \<in> set es}"
  by (induction es arbitrary: G) (auto simp: add_edge_succs split: if_splits)

lemma fold_concat_fold: "fold f (concat xss) = fold (fold f) xss"
  by (induction xss) auto

lemma fx_to_nx_graph_edge_list:
  "fx_to_nx_graph g = fold (\<lambda>(u, v) G. add_edge G u v) (edge_list g) Map.empty"
  by (simp add: fx_to_nx_graph_def edge_list_def fold_concat_fold fold_map comp_def)

lemma set_edge_list: "set (edge_list g) = edges g"
  by (auto simp: edge_list_def edges_def)

lemma fx_to_nx_graph_None:
  "fx_to_nx_graph g x = None \<longleftrightarrow> x \<notin> Field (edges g)"
  by (auto simp: fx_to_nx_graph_edge_list fold_add_edge_None set_edge_list Field_def Domain_fst Range_snd)

lemma fx_to_nx_graph_succs:
  "nx_succs (fx_to_nx_graph g) x = {m. (x, m) \<in> edges g}"
proof -
  have "nx_succs Map.empty x = {}" by (simp add: nx_succs_def)
  then show ?thesis
    by (simp add: fx_to_nx_graph_edge_list fold_add_edge_succs set_edge_list)
qed

lemma successors_fx:
  "successors (fx_to_nx_graph g) n = Inr succs \<Longrightarrow> set succs = {m. (n, m) \<in> edges g}"
  using fx_to_nx_graph_succs [of g n]
  by (auto simp: successors_def nx_succs_def split: option.splits)

lemma successors_fx_error:
  "successors (fx_to_nx_graph g) n = Inl e \<longleftrightarrow> e = NetworkXError n \<and> n \<notin> Field (edges g)"
  using fx_to_nx_graph_None [of g n]
  by (auto simp: successors_def split: option.splits)

lemma succ_rel_fx: "succ_rel (fx_to_nx_graph g) = (edges g)\<inverse>"
proof -
  have "(m, n) \<in> succ_rel (fx_to_nx_graph g) \<longleftrightarrow> (n, m) \<in> edges g" for m n
    using fx_to_nx_graph_succs [of g n]
    by (cases "fx_to_nx_graph g n") (auto simp: succ_rel_def nx_succs_def)
  then show ?thesis by auto
qed

lemma finite_edges: "finite (edges g)"
  by (simp add: set_edge_list [symmetric])

lemma wf_succ_rel_fx: "acyclic (edges g) \<Longrightarrow> wf (succ_rel (fx_to_nx_graph g))"
  by (simp add: succ_rel_fx finite_acyclic_wf_converse finite_edges)


lemma topological_acyclic:
  assumes "topological g"
  shows "acyclic (edges g)"
proof -
  have "edges g \<subseteq> {(p, m). p < m}"
    using assms by (auto simp: topological_def edges_def list_all_iff)
  moreover have "acyclic {(p :: nat, m). p < m}"
    using wf_less by (simp add: wf_acyclic less_than_def [symmetric]  )
  ultimately show ?thesis by (rule acyclic_subset [rotated])
qed

lemma get_input_nodes_set:
  "set (get_input_nodes g) = {i. i < length g \<and> op (g ! i) = placeholder}"
  by (auto simp: get_input_nodes_def)

section \<open>What a step of each pass changes\<close>

lemma annotate_node_static: "annotate_node parent u n = Inr n' \<Longrightarrow> same_static n n'"
  by (auto simp: annotate_node_def Let_def same_static_def split: sum.splits)

lemma add_node_properties_body_frame:
  assumes "add_node_properties_body parent u i g = Inr (Some g')"
  shows "length g' = length g \<and> (\<forall>k. k \<noteq> i \<longrightarrow> g' ! k = g ! k)"
  using assms by (auto simp: add_node_properties_body_def split: sum.splits)

lemma add_features_calculator_body_frame:
  assumes "add_features_calculator_body parent rules i g = Inr (Some g')"
  shows "length g' = length g \<and> (\<forall>k. k \<noteq> i \<longrightarrow> g' ! k = g ! k)"
  using assms
  by (auto simp: add_features_calculator_body_def set_features_calculator_def
      split: sum.splits if_splits option.splits)

lemma associate_input_features_body_frame:
  assumes "associate_input_features_body i g = Inr (Some g')"
  shows "length g' = length g \<and> (\<forall>k. k \<noteq> i \<longrightarrow> g' ! k = g ! k)"
  using assms
  by (auto simp: associate_input_features_body_def set_input_features_set_by_def Let_def
      split: sum.splits if_splits option.splits bool.splits)

lemma work_queue_untouched:
  assumes run: "work_queue body (fx_to_nx_graph g) (get_input_nodes g) g = Some (Inr g')"
      and frame: "\<And>n h h'. body n h = Inr (Some h') \<Longrightarrow>
                    length h' = length h \<and> (\<forall>k. k \<noteq> n \<longrightarrow> h' ! k = h ! k)"
      and r: "op (g ! r) \<noteq> placeholder" "all_input_nodes (g ! r) = []"
  shows "length g' = length g \<and> g' ! r = g ! r"
proof -
  let ?I = "\<lambda>q h. r \<notin> set q \<and> length h = length g \<and> h ! r = g ! r"
  have init: "?I (get_input_nodes g) g"
    using r by (auto simp: get_input_nodes_def)
  have "case (Inr g' :: error + graph) of Inl e \<Rightarrow> True | Inr h \<Rightarrow> ?I [] h"
  proof (rule work_queue_partial [where I = ?I and E = "\<lambda>e. True", OF run], goal_cases)
    case 1
    show ?case by (rule init)
  next
    case (2 n rest h)
    then show ?case by simp
  next
    case (3 n rest h h' succs)
    from 3(3) have "set succs = {m. (n, m) \<in> edges g}" by (rule successors_fx)
    then have "r \<notin> set succs" using r by (auto simp: edges_def)
    with 3(1) frame [OF 3(2)] show ?case by auto
  qed simp_all
  then show ?thesis by simp
qed

lemma six_flags_false_unsupported:
  assumes "six_flags (g ! i) = [Some False, Some False, Some False, Some False, Some False, Some False]"
      and "\<not> list_ex (\<lambda>j. features_calculator (meta (g ! j)) = None) (all_input_nodes (g ! i))"
      and "first_rule extra_rules parent g i = None"
  shows "add_features_calculator_body parent extra_rules i g = Inl (ValueError_unsupported_node i)"
  using assms
  by (simp add: six_flags_def add_features_calculator_body_def calculator_from_flags_def)

lemma annotate_node_six_flags:
  assumes "is_features_propagating_op parent n = Inr fp"
      and "is_features_defining_op parent n = Inr fd"
  shows "\<exists>n'. annotate_node parent u n = Inr n'
           \<and> six_flags n' = [Some fp, Some fd, Some (is_shared_input_features_op n),
                 Some (is_flatten n), Some (is_squeeze n), Some (is_features_concatenate n)]"
  using assms by (simp add: annotate_node_def Let_def six_flags_def)

lemma annotate_node_error:
  "annotate_node parent u n = Inl e \<Longrightarrow> e = AttributeError"
  by (auto simp: annotate_node_def Let_def is_features_propagating_op_def
      is_features_defining_op_def get_submodule_def
      split: sum.splits if_splits target.splits option.splits bool.splits)

lemma add_node_properties_errors:
  assumes "add_node_properties parent u g = Some (Inl e)"
  shows "e = AttributeError \<or> (\<exists>k. e = NetworkXError k)"
proof -
  have "case (Inl e :: error + graph) of
          Inl e \<Rightarrow> e = AttributeError \<or> (\<exists>k. e = NetworkXError k) | Inr h \<Rightarrow> True"
  proof (rule work_queue_partial [where I = "\<lambda>q h. True"
        and E = "\<lambda>e. e = AttributeError \<or> (\<exists>k. e = NetworkXError k)",
        OF assms [unfolded add_node_properties_def]], goal_cases)
    case (4 n rest h e)
    then show ?case
      by (auto simp: add_node_properties_body_def split: sum.splits dest: annotate_node_error)
  next
    case (5 n rest h h' e)
    then show ?case by (auto simp: successors_def split: option.splits)
  qed simp_all
  then show ?thesis by simp
qed

section \<open>The end-to-end concatenation scenario\<close>

text \<open>
  Claim C1, as the code has it. On the graph of two parallel convolutions with 16 and 24
  output channels feeding a channel concatenation that feeds a third convolution, the
  three passes return; the calculator attached to the predecessor of the third
  convolution (the concatenation, node 3) is the Concat of the two constants and has
  value 40; the back-reference of the third convolution (node 4) is the concatenation
  node itself, and it is the concatenation node whose back-reference is the ordered
  list of the two upstream convolutions.
\<close>

theorem C1_concat_end_to_end:
  "calculator_at (run_passes conv_registry u [] concat_graph) 3 =
     Some (ConcatFeaturesCalculator [ConstFeaturesCalculator 16, ConstFeaturesCalculator 24])
   \<and> map_option features (calculator_at (run_passes conv_registry u [] concat_graph) 3) = Some 40
   \<and> set_by_at (run_passes conv_registry u [] concat_graph) 4 = Some (Single 3)
   \<and> set_by_at (run_passes conv_registry u [] concat_graph) 3 = Some (Multiple [1, 2])"
  by code_simp

text \<open>
  The claim as stated fails: the back-reference of the third convolution is not the list
  of the two upstream convolutions.
\<close>

theorem C1_back_reference_counterexample:
  "set_by_at (run_passes conv_registry (\<lambda>n. False) [] concat_graph) 4 \<noteq> Some (Multiple [1, 2])"
  by code_simp

section \<open>Unsupported nodes\<close>

text \<open>
  Claim C3, as the code has it. The annotation pass never fails with the unsupported-node
  error, on any graph. For a node for which none of the six classification predicates is
  true, its loop body writes the six flags as false and goes on; the error is raised by
  the feature-calculator propagation pass, when it pops that node with a calculator on
  every predecessor and no extension rule gives one.
\<close>

theorem C3_unsupported_node_raised_by_propagation:
  assumes "i < length g"
      and "is_features_propagating_op parent (g ! i) = Inr False"
      and "is_features_defining_op parent (g ! i) = Inr False"
      and "\<not> is_shared_input_features_op (g ! i)"
      and "\<not> is_flatten (g ! i)"
      and "\<not> is_squeeze (g ! i)"
      and "\<not> is_features_concatenate (g ! i)"
  shows "(\<forall>k. add_node_properties parent u g \<noteq> Some (Inl (ValueError_unsupported_node k)))
       \<and> (\<exists>g1. add_node_properties_body parent u i g = Inr (Some g1)
             \<and> six_flags (g1 ! i) =
                 [Some False, Some False, Some False, Some False, Some False, Some False]
             \<and> (\<forall>g2 rules.
                   six_flags (g2 ! i) = six_flags (g1 ! i)
                   \<and> \<not> list_ex (\<lambda>j. features_calculator (meta (g2 ! j)) = None)
                          (all_input_nodes (g2 ! i))
                   \<and> first_rule rules parent g2 i = None
                 \<longrightarrow> add_features_calculator_body parent rules i g2
                       = Inl (ValueError_unsupported_node i)))"
proof (intro conjI allI)
  fix k
  show "add_node_properties parent u g \<noteq> Some (Inl (ValueError_unsupported_node k))"
    using add_node_properties_errors [of parent u g "ValueError_unsupported_node k"] by auto
next
  from annotate_node_six_flags [OF assms(2,3), of u] assms(4-7)
  obtain n' where n': "annotate_node parent u (g ! i) = Inr n'"
    "six_flags n' = [Some False, Some False, Some False, Some False, Some False, Some False]"
    by auto
  let ?g1 = "g[i := n']"
  have "add_node_properties_body parent u i g = Inr (Some ?g1)"
    using n' by (simp add: add_node_properties_body_def)
  moreover have "six_flags (?g1 ! i) =
      [Some False, Some False, Some False, Some False, Some False, Some False]"
    using n' assms(1) by simp
  ultimately show "\<exists>g1. add_node_properties_body parent u i g = Inr (Some g1)
             \<and> six_flags (g1 ! i) =
                 [Some False, Some False, Some False, Some False, Some False, Some False]
             \<and> (\<forall>g2 rules.
                   six_flags (g2 ! i) = six_flags (g1 ! i)
                   \<and> \<not> list_ex (\<lambda>j. features_calculator (meta (g2 ! j)) = None)
                          (all_input_nodes (g2 ! i))
                   \<and> first_rule rules parent g2 i = None
                 \<longrightarrow> add_features_calculator_body parent rules i g2
                       = Inl (ValueError_unsupported_node i))"
    using six_flags_false_unsupported by (intro exI [of _ ?g1]) auto
qed

theorem C3_unsupported_node_witness:
  "(\<forall>k. add_node_properties Map.empty (\<lambda>n. False) sigmoid_graph
          \<noteq> Some (Inl (ValueError_unsupported_node k)))
   \<and> (\<exists>g1. add_node_properties_body Map.empty (\<lambda>n. False) 1 sigmoid_graph = Inr (Some g1)
         \<and> six_flags (g1 ! 1) =
             [Some False, Some False, Some False, Some False, Some False, Some False]
         \<and> (\<forall>g2 rules.
               six_flags (g2 ! 1) = six_flags (g1 ! 1)
               \<and> \<not> list_ex (\<lambda>j. features_calculator (meta (g2 ! j)) = None)
                      (all_input_nodes (g2 ! 1))
               \<and> first_rule rules Map.empty g2 1 = None
             \<longrightarrow> add_features_calculator_body Map.empty rules 1 g2
                   = Inl (ValueError_unsupported_node 1)))"
proof -
  have h: "1 < length sigmoid_graph"
    "is_features_propagating_op Map.empty (sigmoid_graph ! 1) = Inr False"
    "is_features_defining_op Map.empty (sigmoid_graph ! 1) = Inr False"
    "\<not> is_shared_input_features_op (sigmoid_graph ! 1)"
    "\<not> is_flatten (sigmoid_graph ! 1)"
    "\<not> is_squeeze (sigmoid_graph ! 1)"
    "\<not> is_features_concatenate (sigmoid_graph ! 1)"
    by code_simp+
  show ?thesis by (rule C3_unsupported_node_raised_by_propagation [OF h])
qed

text \<open>
  The claim as stated fails: on \<^verbatim>\<open>torch.sigmoid(x)\<close> the annotation pass returns, with the six
  flags of the sigmoid node false, and it is the run of the three passes that ends in the
  error.
\<close>

theorem C3_annotation_counterexample:
  "op (sigmoid_graph ! 1) \<noteq> placeholder
   \<and> all_input_nodes (sigmoid_graph ! 1) \<noteq> []
   \<and> flags_at (add_node_properties Map.empty (\<lambda>n. False) sigmoid_graph) 1
       = [Some False, Some False, Some False, Some False, Some False, Some False]
   \<and> run_passes Map.empty (\<lambda>n. False) [] sigmoid_graph
       = Some (Inl (ValueError_unsupported_node 1))"
  by code_simp

section \<open>Nodes without predecessors that are not inputs\<close>

text \<open>
  Claim C4, as the code has it. The graph adapter never fails: \<^verbatim>\<open>get_input_nodes\<close> returns
  the placeholder nodes and nothing else, so a node without predecessors that is not a
  placeholder is not in the initial queue; it is never enqueued later either, and a run
  of the three passes that returns a graph leaves that node as it was.
\<close>

theorem C4_roots_never_enqueued:
  assumes "op (g ! r) \<noteq> placeholder" and "all_input_nodes (g ! r) = []"
  shows "set (get_input_nodes g) = {i. i < length g \<and> op (g ! i) = placeholder}
       \<and> r \<notin> set (get_input_nodes g)
       \<and> (\<forall>g'. run_passes parent u rules g = Some (Inr g') \<longrightarrow> g' ! r = g ! r)"
proof (intro conjI allI impI)
  show "set (get_input_nodes g) = {i. i < length g \<and> op (g ! i) = placeholder}"
    by (rule get_input_nodes_set)
  show "r \<notin> set (get_input_nodes g)" using assms by (simp add: get_input_nodes_set)
  fix g' assume run: "run_passes parent u rules g = Some (Inr g')"
  from run obtain g1 g2 where
    p1: "add_node_properties parent u g = Some (Inr g1)" and
    p2: "add_features_calculator parent rules g1 = Some (Inr g2)" and
    p3: "associate_input_features g2 = Some (Inr g')"
    by (auto simp: run_passes_def split: option.splits sum.splits)
  have 1: "length g1 = length g \<and> g1 ! r = g ! r"
    by (rule work_queue_untouched [OF p1 [unfolded add_node_properties_def] _ assms])
      (rule add_node_properties_body_frame)
  with assms have r1: "op (g1 ! r) \<noteq> placeholder" "all_input_nodes (g1 ! r) = []" by simp_all
  have 2: "length g2 = length g1 \<and> g2 ! r = g1 ! r"
    by (rule work_queue_untouched [OF p2 [unfolded add_features_calculator_def] _ r1])
      (rule add_features_calculator_body_frame)
  with r1 have r2: "op (g2 ! r) \<noteq> placeholder" "all_input_nodes (g2 ! r) = []" by simp_all
  have 3: "length g' = length g2 \<and> g' ! r = g2 ! r"
    by (rule work_queue_untouched [OF p3 [unfolded associate_input_features_def] _ r2])
      (rule associate_input_features_body_frame)
  with 1 2 show "g' ! r = g ! r" by simp
qed

theorem C4_roots_never_enqueued_witness:
  "set (get_input_nodes get_attr_graph)
     = {i. i < length get_attr_graph \<and> op (get_attr_graph ! i) = placeholder}
   \<and> 1 \<notin> set (get_input_nodes get_attr_graph)
   \<and> graph_of (run_passes Map.empty (\<lambda>n. False) [] get_attr_graph) ! 1 = get_attr_graph ! 1"
proof -
  have h: "op (get_attr_graph ! 1) \<noteq> placeholder" "all_input_nodes (get_attr_graph ! 1) = []"
    by code_simp+
  have run: "run_passes Map.empty (\<lambda>n. False) [] get_attr_graph
       = Some (Inr (graph_of (run_passes Map.empty (\<lambda>n. False) [] get_attr_graph)))"
    by code_simp
  from C4_roots_never_enqueued [OF h, of Map.empty "\<lambda>n. False" "[]"] run
  show ?thesis by blast
qed

text \<open>
  The claim as stated fails: the graph of \<^verbatim>\<open>torch.cat((x, self.w), 1)\<close> has the \<^verbatim>\<open>get_attr\<close>
  node 1 without predecessors, the enumeration of inputs returns node 0 alone, and the
  three passes return a graph.
\<close>

theorem C4_no_malformed_graph_error_counterexample:
  "op (get_attr_graph ! 1) \<noteq> placeholder
   \<and> all_input_nodes (get_attr_graph ! 1) = []
   \<and> get_input_nodes get_attr_graph = [0]
   \<and> length (graph_of (run_passes Map.empty (\<lambda>n. False) [] get_attr_graph)) = 4
   \<and> run_passes Map.empty (\<lambda>n. False) [] get_attr_graph
       = Some (Inr (graph_of (run_passes Map.empty (\<lambda>n. False) [] get_attr_graph)))"
  by code_simp

section \<open>Flatten\<close>



text \<open>
  Claim C6, at the failing input. \<^verbatim>\<open>torch.flatten(x, -4)\<close> on an input of rank 4 merges all
  dimensions from the batch dimension on, and the passes do not reject it: the asserted
  condition compares \<^verbatim>\<open>len(input_shape) - start_dim\<close>, which is 8, with 0, and the flatten node
  gets the calculator of its input unchanged. The start dimensions 0 (explicit or by
  default) and 4 (the rank) are the ones the assertion rejects.
\<close>

theorem C6_negative_start_dim_not_rejected:
  "calculator_at (run_passes Map.empty u [] (flatten_graph [IntArg (- 4)] [480])) 1
     = Some (ConstFeaturesCalculator 32)
   \<and> run_passes Map.empty u [] (flatten_graph [IntArg 0] [480]) = Some (Inl AssertionError_flatten_batch)
   \<and> run_passes Map.empty u [] (flatten_graph [] [480]) = Some (Inl AssertionError_flatten_batch)
   \<and> run_passes Map.empty u [] (flatten_graph [IntArg 4] [480]) = Some (Inl AssertionError_flatten_batch)"
  by code_simp

section \<open>Classification and the annotation pass\<close>

lemma same_static_classifiers:
  assumes "same_static n a"
  shows "is_features_propagating_op parent a = is_features_propagating_op parent n"
    and "is_features_defining_op parent a = is_features_defining_op parent n"
    and "is_shared_input_features_op a = is_shared_input_features_op n"
    and "is_flatten a = is_flatten n"
    and "is_squeeze a = is_squeeze n"
    and "is_features_concatenate a = is_features_concatenate n"
    and "is_zero_or_one_input_op a = is_zero_or_one_input_op n"
  using assms
  by (simp_all add: is_features_propagating_op_def is_features_defining_op_def
      is_shared_input_features_op_def is_flatten_def is_squeeze_def
      is_features_concatenate_def is_concatenate_def is_zero_or_one_input_op_def
      try_get_args_def same_static_def)

lemma annotate_node_flags:
  assumes "annotate_node parent u n = Inr a"
  shows "\<exists>fp fd. is_features_propagating_op parent n = Inr fp
           \<and> is_features_defining_op parent n = Inr fd
           \<and> six_flags a = [Some fp, Some fd, Some (is_shared_input_features_op n),
                 Some (is_flatten n), Some (is_squeeze n), Some (is_features_concatenate n)]
           \<and> untouchable (meta a) = Some (u (n\<lparr>meta := (meta n)\<lparr>
                 features_propagating := Some fp,
                 features_defining := Some fd,
                 shared_input_features := Some (is_shared_input_features_op n),
                 flatten := Some (is_flatten n),
                 squeeze := Some (is_squeeze n),
                 features_concatenate := Some (is_features_concatenate n)\<rparr>\<rparr>))
           \<and> zero_or_one_input (meta a) = Some (is_zero_or_one_input_op n)
           \<and> features_calculator (meta a) = features_calculator (meta n)
           \<and> input_features_set_by (meta a) = input_features_set_by (meta n)"
  using assms
  by (auto simp: annotate_node_def Let_def six_flags_def is_zero_or_one_input_op_def
      split: sum.splits)

lemma same_static_refl: "same_static n n"
  by (simp add: same_static_def)

lemma same_static_trans: "same_static a b \<Longrightarrow> same_static b c \<Longrightarrow> same_static a c"
  by (simp add: same_static_def)

text \<open>What each classifier accepts.\<close>

lemma is_features_propagating_op_kind:
  assumes "is_features_propagating_op parent n = Inr True"
  shows "op n = output_op
       \<or> (op n = call_module \<and> (\<exists>l. get_submodule parent (target n) = Inr l
             \<and> l \<in> {BatchNorm1d, BatchNorm2d, AvgPool1d, AvgPool2d, MaxPool1d, Dropout,
                    ReLU, ReLU6, ConstantPad1d, ConstantPad2d}))
       \<or> (op n = call_function \<and> target n \<in> {Func F_relu, Func F_relu6, Func F_log_softmax})"
  using assms
  by (auto simp: is_features_propagating_op_def split: if_splits sum.splits bool.splits)

lemma is_features_defining_op_kind:
  assumes "is_features_defining_op parent n = Inr True"
  shows "(op n = placeholder \<and> all_input_nodes n = [])
       \<or> (op n = call_module \<and> (\<exists>l. get_submodule parent (target n) = Inr l
             \<and> l \<in> {Conv1d, Conv2d, Linear}))"
  using assms
  by (auto simp: is_features_defining_op_def split: if_splits sum.splits)

lemma is_shared_input_features_op_kind:
  assumes "is_shared_input_features_op n"
  shows "op n = call_function
       \<and> target n \<in> {Func torch_add, Func operator_add, Func torch_sub, Func operator_sub}
       \<and> 1 < length (all_input_nodes n)"
  using assms
  by (auto simp: is_shared_input_features_op_def is_zero_or_one_input_op_def split: if_splits)

lemma is_flatten_kind:
  assumes "is_flatten n"
  shows "(op n = call_method \<and> target n = Name ''flatten'')
       \<or> (op n = call_function \<and> target n = Func torch_flatten)"
  using assms by (auto simp: is_flatten_def split: if_splits)

lemma is_squeeze_kind:
  assumes "is_squeeze n"
  shows "(op n = call_method \<and> target n = Name ''squeeze'')
       \<or> (op n = call_function \<and> target n = Func torch_squeeze)"
  using assms by (auto simp: is_squeeze_def split: if_splits)

lemma is_features_concatenate_kind:
  assumes "is_features_concatenate n"
  shows "op n = call_function \<and> target n = Func torch_cat"
  using assms by (auto simp: is_features_concatenate_def is_concatenate_def split: if_splits)

lemma classifiers_exclusive:
  assumes fp: "is_features_propagating_op parent n = Inr fp"
      and fd: "is_features_defining_op parent n = Inr fd"
  shows "length (filter (\<lambda>b. b) [fp, fd, is_shared_input_features_op n, is_flatten n,
           is_squeeze n, is_features_concatenate n]) \<le> 1"
proof -
  note k = is_features_propagating_op_kind [of parent n]
    is_features_defining_op_kind [of parent n]
    is_shared_input_features_op_kind [of n] is_flatten_kind [of n]
    is_squeeze_kind [of n] is_features_concatenate_kind [of n]
  have "\<not> (fp \<and> fd)" using k(1,2) fp fd by auto
  moreover have "\<not> (fp \<and> is_shared_input_features_op n)" using k(1,3) fp by auto
  moreover have "\<not> (fp \<and> is_flatten n)" using k(1,4) fp by auto
  moreover have "\<not> (fp \<and> is_squeeze n)" using k(1,5) fp by auto
  moreover have "\<not> (fp \<and> is_features_concatenate n)" using k(1,6) fp by auto
  moreover have "\<not> (fd \<and> is_shared_input_features_op n)" using k(2,3) fd by auto
  moreover have "\<not> (fd \<and> is_flatten n)" using k(2,4) fd by auto
  moreover have "\<not> (fd \<and> is_squeeze n)" using k(2,5) fd by auto
  moreover have "\<not> (fd \<and> is_features_concatenate n)" using k(2,6) fd by auto
  moreover have "\<not> (is_shared_input_features_op n \<and> is_flatten n)" using k(3,4) by auto
  moreover have "\<not> (is_shared_input_features_op n \<and> is_squeeze n)" using k(3,5) by auto
  moreover have "\<not> (is_shared_input_features_op n \<and> is_features_concatenate n)"
    using k(3,6) by auto
  moreover have "\<not> (is_flatten n \<and> is_squeeze n)" using k(4,5) by auto
  moreover have "\<not> (is_flatten n \<and> is_features_concatenate n)" using k(4,6) by auto
  moreover have "\<not> (is_squeeze n \<and> is_features_concatenate n)" using k(5,6) by auto
  ultimately show ?thesis by auto
qed

lemma annotate_node_classified:
  assumes "annotate_node parent u n = Inr a"
  shows "classified parent n a"
  using annotate_node_flags [OF assms] by (auto simp: classified_def)

lemma classified_static:
  assumes "same_static m n" and "classified parent n a"
  shows "classified parent m a"
  using assms(2) same_static_classifiers [OF assms(1)] by (simp add: classified_def)

lemma add_node_properties_step:
  assumes body: "add_node_properties_body parent u n h = Inr (Some h')"
      and len: "length h = length g"
      and st: "\<forall>i<length g. same_static (g ! i) (h ! i)"
  shows "length h' = length g"
    and "\<forall>i<length g. same_static (g ! i) (h' ! i)"
    and "\<forall>i<length g. i \<noteq> n \<longrightarrow> h' ! i = h ! i"
    and "n < length g \<longrightarrow> classified parent (g ! n) (h' ! n)"
proof -
  from body obtain a where a: "annotate_node parent u (h ! n) = Inr a" and h': "h' = h[n := a]"
    by (auto simp: add_node_properties_body_def split: sum.splits)
  show "length h' = length g" using h' len by simp
  show "\<forall>i<length g. i \<noteq> n \<longrightarrow> h' ! i = h ! i" using h' by simp
  have sa: "same_static (h ! n) a" using a by (rule annotate_node_static)
  show "\<forall>i<length g. same_static (g ! i) (h' ! i)"
  proof (intro allI impI)
    fix i assume i: "i < length g"
    show "same_static (g ! i) (h' ! i)"
    proof (cases "i = n")
      case True
      with i st sa h' len show ?thesis by (auto intro: same_static_trans)
    next
      case False
      with i st h' show ?thesis by simp
    qed
  qed
  show "n < length g \<longrightarrow> classified parent (g ! n) (h' ! n)"
  proof
    assume n: "n < length g"
    from annotate_node_classified [OF a] have "classified parent (h ! n) a" .
    with st n have "classified parent (g ! n) a" by (auto intro: classified_static)
    with h' n len show "classified parent (g ! n) (h' ! n)" by simp
  qed
qed

lemma add_node_properties_post:
  assumes run: "add_node_properties parent u g = Some (Inr g')"
  shows "length g' = length g
       \<and> (\<forall>i<length g. same_static (g ! i) (g' ! i)
             \<and> (g' ! i = g ! i \<or> classified parent (g ! i) (g' ! i))
             \<and> (op (g ! i) = placeholder \<longrightarrow> classified parent (g ! i) (g' ! i)))"
proof -
  let ?I = "\<lambda>q h. length h = length g
       \<and> (\<forall>i<length g. same_static (g ! i) (h ! i)
             \<and> (h ! i = g ! i \<or> classified parent (g ! i) (h ! i))
             \<and> (op (g ! i) = placeholder \<longrightarrow> i \<in> set q \<or> classified parent (g ! i) (h ! i)))"
  have "case (Inr g' :: error + graph) of Inl e \<Rightarrow> True | Inr h \<Rightarrow> ?I [] h"
  proof (rule work_queue_partial [where I = ?I and E = "\<lambda>e. True",
        OF run [unfolded add_node_properties_def]], goal_cases)
    case 1
    show ?case by (simp add: same_static_refl get_input_nodes_set)
  next
    case (2 n rest h)
    then show ?case by (simp add: add_node_properties_body_def split: sum.splits)
  next
    case (3 n rest h h' succs)
    from 3(1) have len: "length h = length g"
      and st: "\<forall>i<length g. same_static (g ! i) (h ! i)" by simp_all
    note s = add_node_properties_step [OF 3(2) len st]
    show ?case
    proof (intro conjI allI impI)
      show "length h' = length g" by (rule s(1))
    next
      fix i assume i: "i < length g"
      show "same_static (g ! i) (h' ! i)" using s(2) i by simp
      show "h' ! i = g ! i \<or> classified parent (g ! i) (h' ! i)"
        using s(3,4) 3(1) i by (cases "i = n") auto
      assume "op (g ! i) = placeholder"
      then show "i \<in> set (rest @ succs) \<or> classified parent (g ! i) (h' ! i)"
        using s(3,4) 3(1) i by (cases "i = n") auto
    qed
  qed simp_all
  then show ?thesis by simp
qed

lemma add_node_properties_terminates:
  assumes "acyclic (edges g)"
  shows "\<exists>r. add_node_properties parent u g = Some r"
  unfolding add_node_properties_def
  by (rule work_queue_terminates) (rule wf_succ_rel_fx [OF assms])

lemma placeholder_classified:
  assumes "classified parent n a" and "op n = placeholder" and "all_input_nodes n = []"
  shows "six_flags a = [Some False, Some True, Some False, Some False, Some False, Some False]"
  using assms
  by (auto simp: classified_def is_features_propagating_op_def is_features_defining_op_def
      is_shared_input_features_op_def is_zero_or_one_input_op_def is_flatten_def
      is_squeeze_def is_features_concatenate_def is_concatenate_def)

section \<open>The feature-calculator propagation pass\<close>

lemma same_but_calculator_refl: "same_but_calculator n n"
  by (simp add: same_but_calculator_def same_static_refl)

lemma same_but_calculator_trans:
  "same_but_calculator a b \<Longrightarrow> same_but_calculator b c \<Longrightarrow> same_but_calculator a c"
  by (auto simp: same_but_calculator_def intro: same_static_trans)

lemma same_but_calculator_static: "same_but_calculator n n' \<Longrightarrow> same_static n n'"
  by (simp add: same_but_calculator_def)

lemma same_but_calculator_inputs:
  "same_but_calculator n n' \<Longrightarrow> all_input_nodes n' = all_input_nodes n"
  by (drule same_but_calculator_static) (simp add: same_static_def)

lemma same_but_calculator_op: "same_but_calculator n n' \<Longrightarrow> op n' = op n"
  by (drule same_but_calculator_static) (simp add: same_static_def)

lemma list_update_beyond_nth: "\<not> n < length h \<Longrightarrow> h[n := x] ! k = h ! k"
  by (simp add: list_update_beyond)

lemma set_features_calculator_nth:
  "set_features_calculator h n fc ! k =
     (if k = n \<and> n < length h
      then (h ! n)\<lparr>meta := (meta (h ! n))\<lparr>features_calculator := Some fc\<rparr>\<rparr> else h ! k)"
  by (cases "n < length h")
    (simp_all add: set_features_calculator_def nth_list_update list_update_beyond_nth)

lemma add_features_calculator_body_Some:
  assumes "add_features_calculator_body parent rules n h = Inr (Some h')"
  shows "\<exists>fc. h' = set_features_calculator h n fc"
    and "\<forall>p \<in> set (all_input_nodes (h ! n)). features_calculator (meta (h ! p)) \<noteq> None"
  using assms
  by (auto simp: add_features_calculator_body_def list_ex_iff
      split: if_splits option.splits sum.splits)

lemma add_features_calculator_body_None:
  "add_features_calculator_body parent rules n h = Inr None \<longleftrightarrow>
     list_ex (\<lambda>j. features_calculator (meta (h ! j)) = None) (all_input_nodes (h ! n))"
  by (auto simp: add_features_calculator_body_def split: option.splits sum.splits)

lemma propagation_inv_init:
  assumes "\<forall>k<length g. features_calculator (meta (g ! k)) = None"
      and "\<forall>m<length g. \<forall>p \<in> set (all_input_nodes (g ! m)). p < length g"
  shows "propagation_inv g (get_input_nodes g) g"
  unfolding propagation_inv_def
proof (intro conjI allI impI)
  fix m assume m: "m < length g" and
    c: "features_calculator (meta (g ! m)) = None
           \<and> (op (g ! m) = placeholder \<or> all_input_nodes (g ! m) \<noteq> [])
           \<and> (\<forall>p \<in> set (all_input_nodes (g ! m)). features_calculator (meta (g ! p)) \<noteq> None)"
  show "m \<in> set (get_input_nodes g)"
  proof (cases "all_input_nodes (g ! m)")
    case Nil
    with c m show ?thesis by (simp add: get_input_nodes_set)
  next
    case (Cons p ps)
    with assms m have "p < length g" "features_calculator (meta (g ! p)) = None"
      by auto
    with c Cons show ?thesis by auto
  qed
qed (simp_all add: same_but_calculator_refl)

lemma propagation_inv_skip:
  assumes inv: "propagation_inv g (n # rest) h"
      and body: "add_features_calculator_body parent rules n h = Inr None"
  shows "propagation_inv g rest h"
proof -
  from body obtain p where p: "p \<in> set (all_input_nodes (h ! n))"
    "features_calculator (meta (h ! p)) = None"
    by (auto simp: add_features_calculator_body_None list_ex_iff)
  have "n < length g \<Longrightarrow> all_input_nodes (h ! n) = all_input_nodes (g ! n)"
    using inv by (auto simp: propagation_inv_def dest: same_but_calculator_inputs)
  with p inv show ?thesis
    unfolding propagation_inv_def by (metis set_ConsD)
qed

lemma propagation_inv_step:
  assumes inv: "propagation_inv g (n # rest) h"
      and body: "add_features_calculator_body parent rules n h = Inr (Some h')"
      and succs: "successors (fx_to_nx_graph g) n = Inr succs"
  shows "propagation_inv g (rest @ succs) h'"
proof -
  from add_features_calculator_body_Some [OF body] obtain fc
    where h': "h' = set_features_calculator h n fc" by auto
  from inv have len: "length h = length g"
    and same: "\<forall>k<length g. same_but_calculator (g ! k) (h ! k)"
    by (simp_all add: propagation_inv_def)
  have ss: "set succs = {m. (n, m) \<in> edges g}" using succs by (rule successors_fx)
  have nth: "\<And>k. k \<noteq> n \<Longrightarrow> h' ! k = h ! k"
    by (simp add: h' set_features_calculator_nth)
  have has_n: "n < length g \<Longrightarrow> features_calculator (meta (h' ! n)) \<noteq> None"
    by (simp add: h' set_features_calculator_nth len)
  show ?thesis
    unfolding propagation_inv_def
  proof (intro conjI allI impI)
    show "length h' = length g" by (simp add: h' set_features_calculator_def len)
  next
    fix k assume k: "k < length g"
    show "same_but_calculator (g ! k) (h' ! k)"
    proof (cases "k = n")
      case True
      have "same_but_calculator (h ! n) (h' ! n)"
        by (simp add: h' set_features_calculator_nth same_but_calculator_def
            same_static_def six_flags_def)
      with same k True show ?thesis by (auto intro: same_but_calculator_trans)
    next
      case False
      with same k nth show ?thesis by simp
    qed
  next
    fix m assume m: "m < length g" and
      c: "features_calculator (meta (h' ! m)) = None
           \<and> (op (g ! m) = placeholder \<or> all_input_nodes (g ! m) \<noteq> [])
           \<and> (\<forall>p \<in> set (all_input_nodes (g ! m)). features_calculator (meta (h' ! p)) \<noteq> None)"
    from c has_n m have mn: "m \<noteq> n" by auto
    with c nth have lacks: "features_calculator (meta (h ! m)) = None" by simp
    show "m \<in> set (rest @ succs)"
    proof (cases "n \<in> set (all_input_nodes (g ! m))")
      case True
      with m ss show ?thesis by (simp add: edges_def)
    next
      case False
      with c nth have "\<forall>p \<in> set (all_input_nodes (g ! m)). features_calculator (meta (h ! p)) \<noteq> None"
        by metis
      with inv m lacks c have "m \<in> set (n # rest)" by (simp add: propagation_inv_def)
      with mn show ?thesis by simp
    qed
  qed
qed

lemma add_features_calculator_post:
  assumes run: "add_features_calculator parent rules g = Some (Inr g')"
      and fresh: "\<forall>k<length g. features_calculator (meta (g ! k)) = None"
      and refs: "\<forall>m<length g. \<forall>p \<in> set (all_input_nodes (g ! m)). p < length g"
  shows "propagation_inv g [] g'"
proof -
  have "case (Inr g' :: error + graph) of Inl e \<Rightarrow> True | Inr h \<Rightarrow> propagation_inv g [] h"
  proof (rule work_queue_partial [where I = "propagation_inv g" and E = "\<lambda>e. True",
        OF run [unfolded add_features_calculator_def]], goal_cases)
    case 1
    show ?case by (rule propagation_inv_init [OF fresh refs])
  next
    case (2 n rest h)
    then show ?case by (rule propagation_inv_skip)
  next
    case (3 n rest h h' succs)
    then show ?case by (rule propagation_inv_step)
  qed simp_all
  then show ?thesis by simp
qed

lemma add_features_calculator_terminates:
  assumes "acyclic (edges g)"
  shows "\<exists>r. add_features_calculator parent rules g = Some r"
  unfolding add_features_calculator_def
  by (rule work_queue_terminates) (rule wf_succ_rel_fx [OF assms])

text \<open>
  Claim C7, as the code has it. A popped node with a predecessor that has no calculator
  is dropped (\<^verbatim>\<open>continue\<close>): the loop goes on with the rest of the queue and the same
  graph, the node is not appended again and its successors are not enqueued. The node
  comes back into the queue when one of its predecessors is processed. On every acyclic
  graph the pass returns; and when it returns a graph, starting from a graph without
  calculators, every node that is an input or has predecessors, all of which ended with a
  calculator, has a calculator.
\<close>

theorem C7_deferred_node_dropped:
  "(list_ex (\<lambda>j. features_calculator (meta (h ! j)) = None) (all_input_nodes (h ! i)) \<longrightarrow>
      work_queue (add_features_calculator_body parent rules) G (i # rest) h
        = work_queue (add_features_calculator_body parent rules) G rest h)
   \<and> (acyclic (edges g) \<longrightarrow> (\<exists>r. add_features_calculator parent rules g = Some r))
   \<and> (\<forall>g'. (\<forall>k<length g. features_calculator (meta (g ! k)) = None
                \<and> (\<forall>p \<in> set (all_input_nodes (g ! k)). p < length g))
          \<and> add_features_calculator parent rules g = Some (Inr g') \<longrightarrow>
        (\<forall>m<length g.
            (op (g ! m) = placeholder \<or> all_input_nodes (g ! m) \<noteq> [])
            \<and> (\<forall>p \<in> set (all_input_nodes (g ! m)). features_calculator (meta (g' ! p)) \<noteq> None)
          \<longrightarrow> features_calculator (meta (g' ! m)) \<noteq> None))"
proof (intro conjI allI impI)
  assume "list_ex (\<lambda>j. features_calculator (meta (h ! j)) = None) (all_input_nodes (h ! i))"
  then have "add_features_calculator_body parent rules i h = Inr None"
    by (simp add: add_features_calculator_body_None)
  then show "work_queue (add_features_calculator_body parent rules) G (i # rest) h
        = work_queue (add_features_calculator_body parent rules) G rest h"
    by (simp add: work_queue_Cons)
next
  assume "acyclic (edges g)"
  then show "\<exists>r. add_features_calculator parent rules g = Some r"
    by (rule add_features_calculator_terminates)
next
  fix g' m
  assume a: "(\<forall>k<length g. features_calculator (meta (g ! k)) = None
                \<and> (\<forall>p \<in> set (all_input_nodes (g ! k)). p < length g))
          \<and> add_features_calculator parent rules g = Some (Inr g')"
    and m: "m < length g"
    and c: "(op (g ! m) = placeholder \<or> all_input_nodes (g ! m) \<noteq> [])
            \<and> (\<forall>p \<in> set (all_input_nodes (g ! m)). features_calculator (meta (g' ! p)) \<noteq> None)"
  from a have "propagation_inv g [] g'"
    by (intro add_features_calculator_post [of parent rules]) auto
  then have "features_calculator (meta (g' ! m)) = None
           \<and> (op (g ! m) = placeholder \<or> all_input_nodes (g ! m) \<noteq> [])
           \<and> (\<forall>p \<in> set (all_input_nodes (g ! m)). features_calculator (meta (g' ! p)) \<noteq> None)
           \<longrightarrow> m \<in> set []"
    using m unfolding propagation_inv_def by blast
  with c show "features_calculator (meta (g' ! m)) \<noteq> None" by auto
qed

theorem C7_deferred_node_dropped_witness:
  "work_queue (add_features_calculator_body conv_registry []) (fx_to_nx_graph skip_graph)
       (3 # [2]) skip_state
     = work_queue (add_features_calculator_body conv_registry []) (fx_to_nx_graph skip_graph)
         [2] skip_state
   \<and> (\<exists>r. add_features_calculator conv_registry []
             (graph_of (add_node_properties conv_registry (\<lambda>n. False) skip_graph)) = Some r)
   \<and> calculator_at (add_features_calculator conv_registry []
         (graph_of (add_node_properties conv_registry (\<lambda>n. False) skip_graph))) 3
       = Some (ConcatFeaturesCalculator [ConstFeaturesCalculator 3, ConstFeaturesCalculator 24])"
proof -
  have d: "list_ex (\<lambda>j. features_calculator (meta (skip_state ! j)) = None)
      (all_input_nodes (skip_state ! 3))"
    by code_simp
  have ac: "acyclic (edges (graph_of (add_node_properties conv_registry (\<lambda>n. False) skip_graph)))"
    by (rule topological_acyclic) code_simp
  have r: "calculator_at (add_features_calculator conv_registry []
         (graph_of (add_node_properties conv_registry (\<lambda>n. False) skip_graph))) 3
       = Some (ConcatFeaturesCalculator [ConstFeaturesCalculator 3, ConstFeaturesCalculator 24])"
    by code_simp
  from C7_deferred_node_dropped [of skip_state 3 conv_registry "[]" "fx_to_nx_graph skip_graph"
      "[2]" "graph_of (add_node_properties conv_registry (\<lambda>n. False) skip_graph)"] d ac r
  show ?thesis by blast
qed

text \<open>
  The claim as stated fails: on the graph of \<^verbatim>\<open>torch.cat((x, self.w), 1)\<close> the pass returns a
  graph in which the concatenation (node 2), deferred because the \<^verbatim>\<open>get_attr\<close> node 1 has no
  calculator, has none either: it was neither kept in the queue nor processed.
\<close>

theorem C7_deferred_node_counterexample:
  "add_features_calculator Map.empty []
       (graph_of (add_node_properties Map.empty (\<lambda>n. False) get_attr_graph))
     = Some (Inr (graph_of (add_features_calculator Map.empty []
         (graph_of (add_node_properties Map.empty (\<lambda>n. False) get_attr_graph)))))
   \<and> length (graph_of (add_features_calculator Map.empty []
         (graph_of (add_node_properties Map.empty (\<lambda>n. False) get_attr_graph)))) = 4
   \<and> all_input_nodes (get_attr_graph ! 2) = [0, 1]
   \<and> calculator_at (add_features_calculator Map.empty []
         (graph_of (add_node_properties Map.empty (\<lambda>n. False) get_attr_graph))) 1 = None
   \<and> calculator_at (add_features_calculator Map.empty []
         (graph_of (add_node_properties Map.empty (\<lambda>n. False) get_attr_graph))) 2 = None"
  by code_simp

section \<open>The three passes on a supported graph\<close>






lemma fresh_graph_node:
  assumes "fresh_graph g" and "i < length g"
  shows "six_flags (g ! i) = [None, None, None, None, None, None]"
    and "features_calculator (meta (g ! i)) = None"
    and "input_features_set_by (meta (g ! i)) = None"
  using assms by (simp_all add: fresh_graph_def list_all_length)

lemma fresh_not_classified:
  assumes "fresh_graph g" and "i < length g"
  shows "\<not> classified parent n (g ! i)"
  using fresh_graph_node(1) [OF assms] by (simp add: classified_def)

lemma annotate_node_keeps:
  assumes "annotate_node parent u n = Inr a"
  shows "features_calculator (meta a) = features_calculator (meta n)"
    and "input_features_set_by (meta a) = input_features_set_by (meta n)"
  using annotate_node_flags [OF assms] by auto


lemma annotation_inv_init:
  assumes fresh: "fresh_graph g"
  shows "annotation_inv parent g (get_input_nodes g) g"
  unfolding annotation_inv_def
  using fresh_not_classified [OF fresh]
  by (auto simp: get_input_nodes_set same_static_refl)

lemma annotation_inv_step:
  assumes inv: "annotation_inv parent g (n # rest) h"
      and body: "add_node_properties_body parent u n h = Inr (Some h')"
      and succs: "successors (fx_to_nx_graph g) n = Inr succs"
  shows "annotation_inv parent g (rest @ succs) h'"
proof -
  from inv have len: "length h = length g" and n: "n < length g"
    and st: "\<forall>i<length g. same_static (g ! i) (h ! i)"
    by (simp_all add: annotation_inv_def)
  note s = add_node_properties_step [OF body len st]
  from body obtain a where a: "annotate_node parent u (h ! n) = Inr a" and h': "h' = h[n := a]"
    by (auto simp: add_node_properties_body_def split: sum.splits)
  have ss: "set succs = {m. (n, m) \<in> edges g}" using succs by (rule successors_fx)
  have cn: "classified parent (g ! n) (h' ! n)" using s(4) n by simp
  show ?thesis
    unfolding annotation_inv_def
  proof (intro conjI allI impI ballI)
    show "length h' = length g" by (rule s(1))
  next
    fix m assume "m \<in> set (rest @ succs)"
    with inv ss show "m < length g" by (auto simp: annotation_inv_def edges_def)
  next
    fix i assume i: "i < length g"
    show "same_static (g ! i) (h' ! i)" using s(2) i by simp
    show "features_calculator (meta (h' ! i)) = features_calculator (meta (g ! i))"
      using inv i s(3) annotate_node_keeps(1) [OF a] h' len
      by (cases "i = n") (auto simp: annotation_inv_def)
    show "input_features_set_by (meta (h' ! i)) = input_features_set_by (meta (g ! i))"
      using inv i s(3) annotate_node_keeps(2) [OF a] h' len
      by (cases "i = n") (auto simp: annotation_inv_def)
    show "h' ! i = g ! i \<or> classified parent (g ! i) (h' ! i)"
      using inv i s(3) cn by (cases "i = n") (auto simp: annotation_inv_def)
  next
    fix m assume m: "m < length g" and
      c: "\<not> classified parent (g ! m) (h' ! m)
           \<and> (op (g ! m) = placeholder
               \<or> (\<exists>p \<in> set (all_input_nodes (g ! m)). p < length g
                     \<and> classified parent (g ! p) (h' ! p)))"
    from c cn have mn: "m \<noteq> n" by auto
    show "m \<in> set (rest @ succs)"
    proof (cases "n \<in> set (all_input_nodes (g ! m))")
      case True
      with m ss show ?thesis by (simp add: edges_def)
    next
      case False
      have "\<not> classified parent (g ! m) (h ! m)" using c mn m s(3) by simp
      moreover have "op (g ! m) = placeholder
               \<or> (\<exists>p \<in> set (all_input_nodes (g ! m)). p < length g
                     \<and> classified parent (g ! p) (h ! p))"
        using c False s(3) by metis
      ultimately have "m \<in> set (n # rest)"
        using inv m unfolding annotation_inv_def by blast
      with mn show ?thesis by simp
    qed
  qed
qed


lemma same_static_graph_inputs:
  "same_static_graph g g' \<Longrightarrow> i < length g \<Longrightarrow> all_input_nodes (g' ! i) = all_input_nodes (g ! i)"
  by (simp add: same_static_graph_def same_static_def)

lemma edges_static:
  assumes "same_static_graph g g'"
  shows "edges g' = edges g"
  using assms same_static_graph_inputs [OF assms]
  by (auto simp: edges_def same_static_graph_def)

lemma try_get_args_static:
  "same_static n n' \<Longrightarrow> try_get_args n' idx kw d = try_get_args n idx kw d"
  by (simp add: try_get_args_def same_static_def)




















lemma propagation_inv_closed:
  assumes inv: "propagation_inv g [] h" and m: "m < length g"
      and root: "op (g ! m) = placeholder \<or> all_input_nodes (g ! m) \<noteq> []"
      and ready: "\<forall>p \<in> set (all_input_nodes (g ! m)). features_calculator (meta (h ! p)) \<noteq> None"
  shows "features_calculator (meta (h ! m)) \<noteq> None"
proof
  assume "features_calculator (meta (h ! m)) = None"
  with inv m root ready have "m \<in> set []"
    unfolding propagation_inv_def by blast
  then show False by simp
qed


lemma same_but_set_by_refl: "same_but_set_by n n"
  by (simp add: same_but_set_by_def same_static_refl)

lemma same_but_set_by_trans:
  "same_but_set_by a b \<Longrightarrow> same_but_set_by b c \<Longrightarrow> same_but_set_by a c"
  by (auto simp: same_but_set_by_def intro: same_static_trans)

lemma set_input_features_set_by_nth:
  "set_input_features_set_by h n v ! k =
     (if k = n \<and> n < length h
      then (h ! n)\<lparr>meta := (meta (h ! n))\<lparr>input_features_set_by := Some v\<rparr>\<rparr> else h ! k)"
  by (cases "n < length h")
    (simp_all add: set_input_features_set_by_def nth_list_update list_update_beyond_nth)

text \<open>What the body of the association pass does to the graph.\<close>

lemma associate_input_features_body_cases:
  assumes body: "associate_input_features_body n h = Inr (Some h')"
  shows "(h' = h \<and> \<not> association_ready h n)
       \<or> (\<exists>v. h' = set_input_features_set_by h n v \<and> association_ready h n)"
proof (cases "all_input_nodes (h ! n)")
  case Nil
  with body show ?thesis
    by (auto simp: associate_input_features_body_def association_ready_def)
next
  case (Cons p ps)
  note ins = Cons
  show ?thesis
  proof (cases "features_concatenate (meta (h ! n))")
    case None
    with body ins show ?thesis by (simp add: associate_input_features_body_def)
  next
    case (Some c)
    show ?thesis
    proof (cases c)
      case True
      show ?thesis
      proof (cases "list_ex (\<lambda>j. input_features_set_by (meta (h ! j)) = None) (p # ps)")
        case True
        with body ins Some \<open>c\<close> have "h' = h"
          by (auto simp: associate_input_features_body_def split: if_splits)
        moreover have "\<not> association_ready h n"
          using True ins Some \<open>c\<close> by (auto simp: association_ready_def list_ex_iff list_all_iff)
        ultimately show ?thesis by simp
      next
        case False
        with body ins Some \<open>c\<close> have "h' = set_input_features_set_by h n (Multiple (p # ps))"
          by (auto simp: associate_input_features_body_def split: if_splits)
        moreover have "association_ready h n"
          using False ins Some \<open>c\<close> by (auto simp: association_ready_def list_ex_iff list_all_iff)
        ultimately show ?thesis by blast
      qed
    next
      case False
      show ?thesis
      proof (cases "input_features_set_by (meta (h ! p))")
        case None
        with body ins Some \<open>\<not> c\<close> have "h' = h"
          by (simp add: associate_input_features_body_def)
        moreover have "\<not> association_ready h n"
          using None ins Some \<open>\<not> c\<close> by (simp add: association_ready_def)
        ultimately show ?thesis by simp
      next
        case sb: (Some sb)
        with body ins Some \<open>\<not> c\<close> obtain v where "h' = set_input_features_set_by h n v"
          by (auto simp: associate_input_features_body_def split: sum.splits)
        moreover have "association_ready h n"
          using sb ins Some \<open>\<not> c\<close> by (simp add: association_ready_def)
        ultimately show ?thesis by blast
      qed
    qed
  qed
qed

lemma associate_input_features_body_not_None:
  "associate_input_features_body n h \<noteq> Inr None"
  by (auto simp: associate_input_features_body_def Let_def
      split: list.splits option.splits bool.splits if_splits sum.splits)

lemma set_input_features_set_by_same:
  "same_but_set_by (h ! k) (set_input_features_set_by h n v ! k)"
  by (simp add: set_input_features_set_by_nth same_but_set_by_def same_static_def six_flags_def)

lemma association_ready_update:
  assumes "n \<notin> set (all_input_nodes (h ! m))"
  shows "association_ready (set_input_features_set_by h n v) m = association_ready h m"
proof -
  let ?h' = "set_input_features_set_by h n v"
  have ins: "all_input_nodes (?h' ! m) = all_input_nodes (h ! m)"
    and fc: "features_concatenate (meta (?h' ! m)) = features_concatenate (meta (h ! m))"
    by (simp_all add: set_input_features_set_by_nth)
  have sb: "\<forall>j \<in> set (all_input_nodes (h ! m)).
      input_features_set_by (meta (?h' ! j)) = input_features_set_by (meta (h ! j))"
    using assms by (auto simp: set_input_features_set_by_nth)
  show ?thesis
  proof (cases "all_input_nodes (h ! m)")
    case Nil
    then show ?thesis by (simp add: association_ready_def ins)
  next
    case (Cons p ps)
    with sb show ?thesis
      unfolding association_ready_def ins fc Cons by (simp add: list_all_iff)
  qed
qed

lemma association_inv_init:
  assumes fresh: "\<forall>k<length g. input_features_set_by (meta (g ! k)) = None"
      and refs: "\<forall>m<length g. \<forall>p \<in> set (all_input_nodes (g ! m)). p < length g"
  shows "association_inv g (get_input_nodes g) g"
  unfolding association_inv_def
proof (intro conjI allI impI)
  fix m assume m: "m < length g" and
    c: "input_features_set_by (meta (g ! m)) = None
           \<and> (op (g ! m) = placeholder \<or> all_input_nodes (g ! m) \<noteq> [])
           \<and> association_ready g m"
  show "m \<in> set (get_input_nodes g)"
  proof (cases "all_input_nodes (g ! m)")
    case Nil
    with c m show ?thesis by (simp add: get_input_nodes_set)
  next
    case (Cons p ps)
    with refs m have "p < length g" by auto
    with fresh have "input_features_set_by (meta (g ! p)) = None" by simp
    with c Cons show ?thesis by (simp add: association_ready_def split: if_splits)
  qed
qed (simp_all add: same_but_set_by_refl)

lemma association_inv_step:
  assumes inv: "association_inv g (n # rest) h"
      and body: "associate_input_features_body n h = Inr (Some h')"
      and succs: "successors (fx_to_nx_graph g) n = Inr succs"
  shows "association_inv g (rest @ succs) h'"
proof -
  from inv have len: "length h = length g"
    and same: "\<forall>k<length g. same_but_set_by (g ! k) (h ! k)"
    by (simp_all add: association_inv_def)
  have ss: "set succs = {m. (n, m) \<in> edges g}" using succs by (rule successors_fx)
  have ins: "\<And>m. m < length g \<Longrightarrow> all_input_nodes (h ! m) = all_input_nodes (g ! m)"
    using same by (auto simp: same_but_set_by_def same_static_def)
  from associate_input_features_body_cases [OF body]
  show ?thesis
  proof
    assume "h' = h \<and> \<not> association_ready h n"
    then have h': "h' = h" and nr: "\<not> association_ready h n" by simp_all
    show ?thesis
      unfolding association_inv_def h'
    proof (intro conjI allI impI)
      fix m assume m: "m < length g" and
        c: "input_features_set_by (meta (h ! m)) = None
           \<and> (op (g ! m) = placeholder \<or> all_input_nodes (g ! m) \<noteq> [])
           \<and> association_ready h m"
      with inv have "m \<in> set (n # rest)" unfolding association_inv_def by blast
      moreover from c nr have "m \<noteq> n" by auto
      ultimately show "m \<in> set (rest @ succs)" by simp
    qed (use len same in simp_all)
  next
    assume "\<exists>v. h' = set_input_features_set_by h n v \<and> association_ready h n"
    then obtain v where h': "h' = set_input_features_set_by h n v"
      and rn: "association_ready h n" by blast
    show ?thesis
      unfolding association_inv_def
    proof (intro conjI allI impI)
      show "length h' = length g" by (simp add: h' set_input_features_set_by_def len)
    next
      fix k assume k: "k < length g"
      from same k set_input_features_set_by_same [of h k n v]
      show "same_but_set_by (g ! k) (h' ! k)"
        unfolding h' by (auto intro: same_but_set_by_trans)
    next
      fix m assume m: "m < length g" and
        c: "input_features_set_by (meta (h' ! m)) = None
           \<and> (op (g ! m) = placeholder \<or> all_input_nodes (g ! m) \<noteq> [])
           \<and> association_ready h' m"
      show "m \<in> set (rest @ succs)"
      proof (cases "n \<in> set (all_input_nodes (g ! m))")
        case True
        with m ss show ?thesis by (simp add: edges_def)
      next
        case False
        with m ins have "n \<notin> set (all_input_nodes (h ! m))" by simp
        from association_ready_update [OF this, of v] c
        have r: "association_ready h m" by (simp add: h')
        from c have mn: "m \<noteq> n \<or> \<not> n < length h"
          by (auto simp: h' set_input_features_set_by_nth)
        with m len have mn': "m \<noteq> n" by auto
        with c have "input_features_set_by (meta (h ! m)) = None"
          by (simp add: h' set_input_features_set_by_nth)
        with inv m c r have "m \<in> set (n # rest)" unfolding association_inv_def by blast
        with mn' show ?thesis by simp
      qed
    qed
  qed
qed







lemma association_inv_closed:
  assumes inv: "association_inv g [] h" and m: "m < length g"
      and root: "op (g ! m) = placeholder \<or> all_input_nodes (g ! m) \<noteq> []"
      and ready: "association_ready h m"
  shows "input_features_set_by (meta (h ! m)) \<noteq> None"
proof
  assume "input_features_set_by (meta (h ! m)) = None"
  with inv m root ready have "m \<in> set []"
    unfolding association_inv_def by blast
  then show False by simp
qed






section \<open>Running the passes a second time\<close>

text \<open>
  A graph on which every step of the loop, from the nodes of the queue on, either skips
  or changes nothing, is what the loop returns.
\<close>

lemma work_queue_fixpoint:
  assumes wf: "wf (succ_rel G)"
      and q: "\<forall>n \<in> set q. P n"
      and stable: "\<And>n. P n \<Longrightarrow> body n g = Inr None
                  \<or> (body n g = Inr (Some g)
                      \<and> (\<exists>succs. successors G n = Inr succs \<and> (\<forall>m \<in> set succs. P m)))"
  shows "work_queue body G q g = Some (Inr g)"
proof -
  from work_queue_terminates [OF wf]
  obtain r where r: "work_queue body G q g = Some r" by blast
  let ?I = "\<lambda>q h. h = g \<and> (\<forall>n \<in> set q. P n)"
  have "case r of Inl e \<Rightarrow> False | Inr h \<Rightarrow> ?I [] h"
  proof (rule work_queue_partial [where I = ?I and E = "\<lambda>e. False", OF r], goal_cases)
    case 1
    show ?case using q by simp
  next
    case (2 n rest h)
    then show ?case by simp
  next
    case (3 n rest h h' succs)
    with stable [of n] show ?case by auto
  next
    case (4 n rest h e)
    with stable [of n] show ?case by auto
  next
    case (5 n rest h h' e)
    with stable [of n] show ?case by auto
  qed
  with r show ?thesis by (cases r) auto
qed

lemma annotate_node_fixpoint:
  assumes fp: "is_features_propagating_op parent b = Inr fp"
      and fd: "is_features_defining_op parent b = Inr fd"
      and fl: "six_flags b = [Some fp, Some fd, Some (is_shared_input_features_op b),
                 Some (is_flatten b), Some (is_squeeze b), Some (is_features_concatenate b)]"
      and un: "untouchable (meta b) = Some (u b)"
      and zo: "zero_or_one_input (meta b) = Some (is_zero_or_one_input_op b)"
  shows "annotate_node parent u b = Inr b"
proof -
  from fl have f: "features_propagating (meta b) = Some fp"
    "features_defining (meta b) = Some fd"
    "shared_input_features (meta b) = Some (is_shared_input_features_op b)"
    "flatten (meta b) = Some (is_flatten b)"
    "squeeze (meta b) = Some (is_squeeze b)"
    "features_concatenate (meta b) = Some (is_features_concatenate b)"
    by (simp_all add: six_flags_def)
  have n6: "b\<lparr>meta := (meta b)\<lparr>
                 features_propagating := Some fp,
                 features_defining := Some fd,
                 shared_input_features := Some (is_shared_input_features_op b),
                 flatten := Some (is_flatten b),
                 squeeze := Some (is_squeeze b),
                 features_concatenate := Some (is_features_concatenate b)\<rparr>\<rparr> = b"
    unfolding f [symmetric] by simp
  have n8: "b\<lparr>meta := (meta b)\<lparr>
                 untouchable := Some (u b),
                 zero_or_one_input := Some (is_zero_or_one_input_op b)\<rparr>\<rparr> = b"
    unfolding un [symmetric] zo [symmetric] by simp
  show ?thesis
    unfolding annotate_node_def fp fd sum.case Let_def n6 n8 ..
qed

lemma annotate_node_idem:
  assumes a: "annotate_node parent u n = Inr a" and u: "static_untouchable u"
  shows "annotate_node parent u a = Inr a"
proof -
  let ?n6 = "\<lambda>fp fd. n\<lparr>meta := (meta n)\<lparr>
                 features_propagating := Some fp,
                 features_defining := Some fd,
                 shared_input_features := Some (is_shared_input_features_op n),
                 flatten := Some (is_flatten n),
                 squeeze := Some (is_squeeze n),
                 features_concatenate := Some (is_features_concatenate n)\<rparr>\<rparr>"
  from annotate_node_flags [OF a] obtain fp fd where
    fp: "is_features_propagating_op parent n = Inr fp" and
    fd: "is_features_defining_op parent n = Inr fd" and
    fl: "six_flags a = [Some fp, Some fd, Some (is_shared_input_features_op n),
                 Some (is_flatten n), Some (is_squeeze n), Some (is_features_concatenate n)]" and
    un: "untouchable (meta a) = Some (u (?n6 fp fd))" and
    zo: "zero_or_one_input (meta a) = Some (is_zero_or_one_input_op n)"
    by blast
  have st: "same_static n a" using a by (rule annotate_node_static)
  have st6: "same_static (?n6 fp fd) a" using st by (simp add: same_static_def)
  have fl6: "six_flags a = six_flags (?n6 fp fd)" using fl by (simp add: six_flags_def)
  have ua: "u a = u (?n6 fp fd)" using u st6 fl6 by (simp add: static_untouchable_def)
  show ?thesis
    by (rule annotate_node_fixpoint [where fp = fp and fd = fd])
      (simp_all add: same_static_classifiers [OF st] fp fd fl un zo ua)
qed

text \<open>
  What the annotation pass leaves, when it returns on a graph without flags: a node that
  carries its classification was popped by the pass; annotating it again changes
  nothing, it has successors in the \<^verbatim>\<open>networkx\<close> graph, and it is an input or has a
  predecessor.
\<close>

lemma add_node_properties_visited:
  assumes run: "add_node_properties parent u g = Some (Inr a1)"
      and fresh: "fresh_graph g"
      and u: "static_untouchable u"
  shows "annotation_inv parent g [] a1
       \<and> (\<forall>i<length g. classified parent (g ! i) (a1 ! i) \<longrightarrow>
             annotate_node parent u (a1 ! i) = Inr (a1 ! i)
             \<and> i \<in> Field (edges g)
             \<and> (op (g ! i) = placeholder \<or> all_input_nodes (g ! i) \<noteq> []))"
proof -
  let ?root = "\<lambda>i. op (g ! i) = placeholder \<or> all_input_nodes (g ! i) \<noteq> []"
  let ?I = "\<lambda>q h. annotation_inv parent g q h \<and> (\<forall>n \<in> set q. ?root n)
       \<and> (\<forall>i<length g. classified parent (g ! i) (h ! i) \<longrightarrow>
             annotate_node parent u (h ! i) = Inr (h ! i) \<and> i \<in> Field (edges g) \<and> ?root i)"
  have "case (Inr a1 :: error + graph) of Inl e \<Rightarrow> True | Inr h \<Rightarrow> ?I [] h"
  proof (rule work_queue_partial [where I = ?I and E = "\<lambda>e. True",
        OF run [unfolded add_node_properties_def]], goal_cases)
    case 1
    have "\<forall>n \<in> set (get_input_nodes g). ?root n" by (simp add: get_input_nodes_set)
    moreover have "\<forall>i<length g. \<not> classified parent (g ! i) (g ! i)"
      using fresh_not_classified [OF fresh] by simp
    ultimately show ?case
      using annotation_inv_init [OF fresh, of parent] by blast
  next
    case (2 n rest h)
    from 2(2) show ?case by (simp add: add_node_properties_body_def split: sum.splits)
  next
    case (3 n rest h h' succs)
    from 3(1) have inv: "annotation_inv parent g (n # rest) h" and rn: "?root n"
      and old: "\<forall>i<length g. classified parent (g ! i) (h ! i) \<longrightarrow>
             annotate_node parent u (h ! i) = Inr (h ! i) \<and> i \<in> Field (edges g) \<and> ?root i"
      and rrest: "\<forall>n \<in> set rest. ?root n"
      by simp_all
    from inv have n: "n < length g" and len: "length h = length g"
      by (simp_all add: annotation_inv_def)
    from 3(2) obtain a where a: "annotate_node parent u (h ! n) = Inr a" and h': "h' = h[n := a]"
      by (auto simp: add_node_properties_body_def split: sum.splits)
    have ss: "set succs = {m. (n, m) \<in> edges g}" using 3(3) by (rule successors_fx)
    have nf: "n \<in> Field (edges g)"
      using 3(3) successors_fx_error [of g n] by (cases "n \<in> Field (edges g)") auto
    have "\<forall>m \<in> set succs. ?root m"
    proof
      fix m assume "m \<in> set succs"
      with ss have "n \<in> set (all_input_nodes (g ! m))" by (simp add: edges_def)
      then show "?root m" by (cases "all_input_nodes (g ! m)") simp_all
    qed
    moreover have "\<forall>i<length g. classified parent (g ! i) (h' ! i) \<longrightarrow>
             annotate_node parent u (h' ! i) = Inr (h' ! i) \<and> i \<in> Field (edges g) \<and> ?root i"
    proof (intro allI impI)
      fix i assume i: "i < length g" and c: "classified parent (g ! i) (h' ! i)"
      show "annotate_node parent u (h' ! i) = Inr (h' ! i) \<and> i \<in> Field (edges g) \<and> ?root i"
      proof (cases "i = n")
        case True
        have "h' ! n = a" using h' n len by simp
        with annotate_node_idem [OF a u] nf rn True show ?thesis by simp
      next
        case False
        then have "h' ! i = h ! i" using h' by simp
        with c old i show ?thesis by simp
      qed
    qed
    moreover note annotation_inv_step [OF inv 3(2,3)] rrest
    ultimately show ?case by (intro conjI ballI) (auto simp only: set_append Un_iff)
  next
    case 4
    show ?case by (rule TrueI)
  next
    case 5
    show ?case by (rule TrueI)
  qed
  then show ?thesis by (simp only: sum.case) blast
qed

lemma add_features_calculator_body_new:
  "add_features_calculator_body parent rules n h =
     (if list_ex (\<lambda>j. features_calculator (meta (h ! j)) = None) (all_input_nodes (h ! n))
      then Inr None
      else (case new_calculator parent rules h n of
              Inl e \<Rightarrow> Inl e
            | Inr fc \<Rightarrow> Inr (Some (set_features_calculator h n fc))))"
  by (simp add: add_features_calculator_body_def new_calculator_def split: option.splits)

lemma six_flags_fields:
  assumes "six_flags b = six_flags a"
  shows "features_propagating (meta b) = features_propagating (meta a)"
    and "features_defining (meta b) = features_defining (meta a)"
    and "shared_input_features (meta b) = shared_input_features (meta a)"
    and "flatten (meta b) = flatten (meta a)"
    and "squeeze (meta b) = squeeze (meta a)"
    and "features_concatenate (meta b) = features_concatenate (meta a)"
  using assms by (simp_all add: six_flags_def)

lemma first_input_calculator_cong:
  assumes "all_input_nodes b = all_input_nodes a"
      and "\<forall>p \<in> set (all_input_nodes a).
             features_calculator (meta (h' ! p)) = features_calculator (meta (h ! p))"
  shows "first_input_calculator h' b = first_input_calculator h a"
  using assms by (cases "all_input_nodes a") (simp_all add: first_input_calculator_def)

lemma concat_calculator_cong:
  assumes "all_input_nodes b = all_input_nodes a"
      and "\<forall>p \<in> set (all_input_nodes a).
             features_calculator (meta (h' ! p)) = features_calculator (meta (h ! p))"
  shows "concat_calculator h' b = concat_calculator h a"
proof -
  have e: "map (\<lambda>j. features_calculator (meta (h' ! j))) (all_input_nodes a)
      = map (\<lambda>j. features_calculator (meta (h ! j))) (all_input_nodes a)"
    using assms(2) by simp
  show ?thesis unfolding concat_calculator_def assms(1) e ..
qed

lemma const_calculator_cong:
  assumes "same_static a b"
  shows "const_calculator b = const_calculator a"
  using assms by (simp add: const_calculator_def same_static_def)

lemma flatten_calculator_cong:
  assumes st: "same_static a b"
      and "\<forall>p \<in> set (all_input_nodes a).
             features_calculator (meta (h' ! p)) = features_calculator (meta (h ! p))
             \<and> tensor_meta (meta (h' ! p)) = tensor_meta (meta (h ! p))"
  shows "flatten_calculator h' b = flatten_calculator h a"
proof -
  have ins: "all_input_nodes b = all_input_nodes a" using st by (simp add: same_static_def)
  have tg: "try_get_args b = try_get_args a"
    using st by (intro ext) (simp add: try_get_args_static)
  show ?thesis
  proof (cases "all_input_nodes a")
    case Nil
    then show ?thesis by (simp add: flatten_calculator_def ins)
  next
    case (Cons j js)
    with assms(2) have e:
      "features_calculator (meta (h' ! j)) = features_calculator (meta (h ! j))"
      "tensor_meta (meta (h' ! j)) = tensor_meta (meta (h ! j))" by simp_all
    show ?thesis
      unfolding flatten_calculator_def ins Cons tg list.case e ..
  qed
qed

lemma squeeze_calculator_cong:
  assumes st: "same_static a b"
      and "\<forall>p \<in> set (all_input_nodes a).
             features_calculator (meta (h' ! p)) = features_calculator (meta (h ! p))
             \<and> tensor_meta (meta (h' ! p)) = tensor_meta (meta (h ! p))"
  shows "squeeze_calculator h' b = squeeze_calculator h a"
proof -
  have ins: "all_input_nodes b = all_input_nodes a" using st by (simp add: same_static_def)
  have tg: "try_get_args b = try_get_args a"
    using st by (intro ext) (simp add: try_get_args_static)
  show ?thesis
  proof (cases "all_input_nodes a")
    case Nil
    then show ?thesis by (simp add: squeeze_calculator_def ins)
  next
    case (Cons j js)
    with assms(2) have e:
      "features_calculator (meta (h' ! j)) = features_calculator (meta (h ! j))"
      "tensor_meta (meta (h' ! j)) = tensor_meta (meta (h ! j))" by simp_all
    show ?thesis
      unfolding squeeze_calculator_def ins Cons tg list.case e ..
  qed
qed

lemma calculator_from_flags_cong:
  assumes st: "same_static (h ! m) (h' ! m)"
      and fl: "six_flags (h' ! m) = six_flags (h ! m)"
      and ps: "\<forall>p \<in> set (all_input_nodes (h ! m)).
             features_calculator (meta (h' ! p)) = features_calculator (meta (h ! p))
             \<and> tensor_meta (meta (h' ! p)) = tensor_meta (meta (h ! p))"
  shows "calculator_from_flags h' m = calculator_from_flags h m"
proof -
  have ins: "all_input_nodes (h' ! m) = all_input_nodes (h ! m)"
    using st by (simp add: same_static_def)
  from ps have ps': "\<forall>p \<in> set (all_input_nodes (h ! m)).
             features_calculator (meta (h' ! p)) = features_calculator (meta (h ! p))"
    by simp
  show ?thesis
    unfolding calculator_from_flags_def Let_def six_flags_fields [OF fl]
      flatten_calculator_cong [OF st ps] squeeze_calculator_cong [OF st ps]
      concat_calculator_cong [OF ins ps'] first_input_calculator_cong [OF ins ps']
      const_calculator_cong [OF st] ..
qed

lemma static_rules_Cons: "static_rules (r # rs) \<Longrightarrow> static_rules rs"
  by (simp add: static_rules_def)

lemma first_rule_static:
  assumes "static_rules rules" and "same_but_results h h'" and "i < length h"
  shows "first_rule rules parent h' i = first_rule rules parent h i"
  using assms(1)
proof (induction rules)
  case Nil
  show ?case by simp
next
  case (Cons r rs)
  from Cons.prems assms(2,3) have "r parent h' i = r parent h i"
    by (simp add: static_rules_def)
  with Cons.IH [OF static_rules_Cons [OF Cons.prems]] show ?case
    by (simp cong: option.case_cong)
qed

lemma new_calculator_cong:
  assumes rules: "static_rules rules"
      and sr: "same_but_results h h'"
      and m: "m < length h"
      and ps: "\<forall>p \<in> set (all_input_nodes (h ! m)).
             features_calculator (meta (h' ! p)) = features_calculator (meta (h ! p))
             \<and> tensor_meta (meta (h' ! p)) = tensor_meta (meta (h ! p))"
  shows "new_calculator parent rules h' m = new_calculator parent rules h m"
proof -
  from sr m have "same_static (h ! m) (h' ! m)" "six_flags (h' ! m) = six_flags (h ! m)"
    by (simp_all add: same_but_results_def)
  from calculator_from_flags_cong [OF this ps] first_rule_static [OF rules sr m]
  show ?thesis by (simp add: new_calculator_def cong: option.case_cong)
qed

lemma set_features_calculator_same:
  assumes "features_calculator (meta (h ! n)) = Some fc"
  shows "set_features_calculator h n fc = h"
proof -
  have "(h ! n)\<lparr>meta := (meta (h ! n))\<lparr>features_calculator := Some fc\<rparr>\<rparr> = h ! n"
    using assms [symmetric] by simp
  then show ?thesis by (simp add: set_features_calculator_def)
qed

lemma length_set_features_calculator:
  "length (set_features_calculator h n fc) = length h"
  by (simp add: set_features_calculator_def)

lemma set_features_calculator_results:
  "same_but_results h (set_features_calculator h n fc)"
  by (simp add: same_but_results_def set_features_calculator_nth same_static_def six_flags_def
      length_set_features_calculator)

lemma calculators_stable_step:
  assumes stable: "calculators_stable parent rules h"
      and body: "add_features_calculator_body parent rules n h = Inr (Some h')"
      and rules: "static_rules rules"
  shows "calculators_stable parent rules h'"
proof -
  from body have ready:
    "\<forall>p \<in> set (all_input_nodes (h ! n)). features_calculator (meta (h ! p)) \<noteq> None"
    by (rule add_features_calculator_body_Some(2))
  from body obtain fc where nc: "new_calculator parent rules h n = Inr fc"
    and h': "h' = set_features_calculator h n fc"
    by (auto simp: add_features_calculator_body_new split: if_splits sum.splits)
  show ?thesis
  proof (cases "n < length h \<and> features_calculator (meta (h ! n)) = None")
    case False
    have "h' = h"
    proof (cases "n < length h")
      case True
      with False obtain fc0 where fc0: "features_calculator (meta (h ! n)) = Some fc0" by auto
      with stable True have "new_calculator parent rules h n = Inr fc0"
        by (simp add: calculators_stable_def)
      with nc have "fc0 = fc" by simp
      with fc0 show ?thesis by (simp add: h' set_features_calculator_same)
    next
      case False
      then show ?thesis by (simp add: h' set_features_calculator_def list_update_beyond)
    qed
    with stable show ?thesis by simp
  next
    case True
    then have n: "n < length h" and lacks: "features_calculator (meta (h ! n)) = None"
      by simp_all
    have sr: "same_but_results h h'" unfolding h' by (rule set_features_calculator_results)
    have len: "length h' = length h" using sr by (simp add: same_but_results_def)
    have other: "\<And>k. k \<noteq> n \<Longrightarrow> h' ! k = h ! k"
      by (simp add: h' set_features_calculator_nth)
    have ins: "\<And>k. all_input_nodes (h' ! k) = all_input_nodes (h ! k)"
      by (simp add: h' set_features_calculator_nth)
    have nn: "n \<notin> set (all_input_nodes (h ! n))" using ready lacks by auto
    show ?thesis
      unfolding calculators_stable_def
    proof (intro allI impI)
      fix m fcm assume m: "m < length h'"
        and c: "features_calculator (meta (h' ! m)) = Some fcm"
      have notin: "n \<notin> set (all_input_nodes (h ! m))"
        and rdy: "\<forall>p \<in> set (all_input_nodes (h ! m)). features_calculator (meta (h ! p)) \<noteq> None"
        and val: "new_calculator parent rules h m = Inr fcm"
      proof -
        show rdy: "\<forall>p \<in> set (all_input_nodes (h ! m)). features_calculator (meta (h ! p)) \<noteq> None"
        proof (cases "m = n")
          case True
          with ready show ?thesis by simp
        next
          case False
          with c other have "features_calculator (meta (h ! m)) = Some fcm" by simp
          with stable m len show ?thesis by (simp add: calculators_stable_def)
        qed
        then show "n \<notin> set (all_input_nodes (h ! m))" using lacks by auto
        show "new_calculator parent rules h m = Inr fcm"
        proof (cases "m = n")
          case True
          with c n have "fcm = fc" by (simp add: h' set_features_calculator_nth)
          with nc True show ?thesis by simp
        next
          case False
          with c other have "features_calculator (meta (h ! m)) = Some fcm" by simp
          with stable m len show ?thesis by (simp add: calculators_stable_def)
        qed
      qed
      from notin other have same: "\<forall>p \<in> set (all_input_nodes (h ! m)). h' ! p = h ! p"
        by metis
      then have ps: "\<forall>p \<in> set (all_input_nodes (h ! m)).
             features_calculator (meta (h' ! p)) = features_calculator (meta (h ! p))
             \<and> tensor_meta (meta (h' ! p)) = tensor_meta (meta (h ! p))" by simp
      from m len have m': "m < length h" by simp
      from new_calculator_cong [OF rules sr m' ps, of parent] val
      have "new_calculator parent rules h' m = Inr fcm" by simp
      moreover have "\<forall>p \<in> set (all_input_nodes (h' ! m)).
          features_calculator (meta (h' ! p)) \<noteq> None"
        using rdy same by (simp add: ins)
      ultimately show "(\<forall>p \<in> set (all_input_nodes (h' ! m)).
            features_calculator (meta (h' ! p)) \<noteq> None)
          \<and> new_calculator parent rules h' m = Inr fcm" by simp
    qed
  qed
qed

lemma add_features_calculator_stable:
  assumes run: "add_features_calculator parent rules g = Some (Inr g2)"
      and fresh: "\<forall>k<length g. features_calculator (meta (g ! k)) = None"
      and refs: "\<forall>m<length g. \<forall>p \<in> set (all_input_nodes (g ! m)). p < length g"
      and rules: "static_rules rules"
  shows "propagation_inv g [] g2 \<and> calculators_stable parent rules g2"
proof -
  let ?I = "\<lambda>q h. propagation_inv g q h \<and> calculators_stable parent rules h"
  have "case (Inr g2 :: error + graph) of Inl e \<Rightarrow> True | Inr h \<Rightarrow> ?I [] h"
  proof (rule work_queue_partial [where I = ?I and E = "\<lambda>e. True",
        OF run [unfolded add_features_calculator_def]], goal_cases)
    case 1
    have "calculators_stable parent rules g"
      using fresh by (simp add: calculators_stable_def)
    with propagation_inv_init [OF fresh refs] show ?case by simp
  next
    case (2 n rest h)
    then show ?case by (auto intro: propagation_inv_skip)
  next
    case (3 n rest h h' succs)
    then show ?case by (auto intro: propagation_inv_step calculators_stable_step [OF _ _ rules])
  next
    case 4
    show ?case by (rule TrueI)
  next
    case 5
    show ?case by (rule TrueI)
  qed
  then show ?thesis by simp
qed

lemma associate_input_features_body_new:
  "associate_input_features_body n h =
     (case new_set_by h n of
        Inl e \<Rightarrow> Inl e
      | Inr None \<Rightarrow> Inr (Some h)
      | Inr (Some v) \<Rightarrow> Inr (Some (set_input_features_set_by h n v)))"
proof (cases "all_input_nodes (h ! n)")
  case Nil
  then show ?thesis by (simp add: associate_input_features_body_def new_set_by_def)
next
  case (Cons p ps)
  then show ?thesis
    by (simp add: associate_input_features_body_def new_set_by_def
        split: option.splits bool.splits sum.splits)
qed

lemma set_by_from_prev_cong:
  assumes p: "h' ! p = h ! p"
      and tm: "\<And>k. tensor_meta (meta (h' ! k)) = tensor_meta (meta (h ! k))"
  shows "set_by_from_prev h' i p sb = set_by_from_prev h i p sb"
  unfolding set_by_from_prev_def p tm ..

lemma new_set_by_cong:
  assumes ins: "all_input_nodes (h' ! m) = all_input_nodes (h ! m)"
      and fc: "features_concatenate (meta (h' ! m)) = features_concatenate (meta (h ! m))"
      and tm: "\<And>k. tensor_meta (meta (h' ! k)) = tensor_meta (meta (h ! k))"
      and deps: "if features_concatenate (meta (h ! m)) = Some True
                 then \<forall>j \<in> set (all_input_nodes (h ! m)).
                        input_features_set_by (meta (h' ! j)) = input_features_set_by (meta (h ! j))
                 else \<forall>p ps. all_input_nodes (h ! m) = p # ps \<longrightarrow> h' ! p = h ! p"
  shows "new_set_by h' m = new_set_by h m"
proof (cases "all_input_nodes (h ! m)")
  case Nil
  then show ?thesis by (simp add: new_set_by_def ins)
next
  case (Cons p ps)
  show ?thesis
  proof (cases "features_concatenate (meta (h ! m)) = Some True")
    case True
    with deps have "\<forall>j \<in> set (p # ps).
        input_features_set_by (meta (h' ! j)) = input_features_set_by (meta (h ! j))"
      using Cons by simp
    then have "list_ex (\<lambda>j. input_features_set_by (meta (h' ! j)) = None) (p # ps)
        = list_ex (\<lambda>j. input_features_set_by (meta (h ! j)) = None) (p # ps)"
      unfolding list_ex_iff by auto
    with True Cons show ?thesis by (simp add: new_set_by_def ins fc)
  next
    case False
    with deps Cons have e: "h' ! p = h ! p" by simp
    have sb: "set_by_from_prev h' m p = set_by_from_prev h m p"
      by (intro ext) (rule set_by_from_prev_cong [OF e tm])
    show ?thesis
    proof (cases "features_concatenate (meta (h ! m))")
      case None
      then show ?thesis by (simp add: new_set_by_def ins fc Cons)
    next
      case (Some b)
      with False have b: "features_concatenate (meta (h ! m)) = Some False" by simp
      show ?thesis
        unfolding new_set_by_def ins fc Cons list.case b option.case bool.case e sb ..
    qed
  qed
qed

lemma new_set_by_deps:
  assumes "new_set_by h m = Inr (Some w)"
  shows "if features_concatenate (meta (h ! m)) = Some True
         then \<forall>j \<in> set (all_input_nodes (h ! m)). input_features_set_by (meta (h ! j)) \<noteq> None
         else \<forall>p ps. all_input_nodes (h ! m) = p # ps \<longrightarrow>
                input_features_set_by (meta (h ! p)) \<noteq> None"
proof (cases "all_input_nodes (h ! m)")
  case Nil
  then show ?thesis by simp
next
  case (Cons p ps)
  with assms show ?thesis
    by (auto simp: new_set_by_def list_ex_iff split: option.splits bool.splits if_splits)
qed

lemma new_set_by_not_ready:
  assumes "\<not> association_ready h n" and "features_concatenate (meta (h ! n)) \<noteq> None"
  shows "new_set_by h n = Inr None"
proof (cases "all_input_nodes (h ! n)")
  case Nil
  with assms(1) show ?thesis by (simp add: association_ready_def)
next
  case (Cons p ps)
  with assms show ?thesis
    by (auto simp: new_set_by_def association_ready_def list_ex_iff list_all_iff
        split: option.splits bool.splits if_splits)
qed

lemma set_input_features_set_by_again:
  assumes "input_features_set_by (meta (h ! n)) = Some v"
  shows "set_input_features_set_by h n v = h"
proof -
  have "(h ! n)\<lparr>meta := (meta (h ! n))\<lparr>input_features_set_by := Some v\<rparr>\<rparr> = h ! n"
    using assms [symmetric] by simp
  then show ?thesis by (simp add: set_input_features_set_by_def)
qed

lemma back_references_stable_step:
  assumes stable: "back_references_stable h"
      and body: "associate_input_features_body n h = Inr (Some h')"
  shows "back_references_stable h'"
proof (cases "new_set_by h n")
  case (Inl e)
  with body show ?thesis by (simp add: associate_input_features_body_new)
next
  case (Inr r)
  show ?thesis
  proof (cases r)
    case None
    with Inr body have "h' = h" by (simp add: associate_input_features_body_new)
    with stable show ?thesis by simp
  next
    case (Some v)
    with Inr body have new: "new_set_by h n = Inr (Some v)"
      and h': "h' = set_input_features_set_by h n v"
      by (simp_all add: associate_input_features_body_new)
    show ?thesis
    proof (cases "n < length h \<and> input_features_set_by (meta (h ! n)) = None")
      case False
      have "h' = h"
      proof (cases "n < length h")
        case True
        with False obtain v0 where v0: "input_features_set_by (meta (h ! n)) = Some v0" by auto
        with stable True have "new_set_by h n = Inr (Some v0)"
          by (simp add: back_references_stable_def)
        with new have "v0 = v" by simp
        with v0 h' show ?thesis by (simp add: set_input_features_set_by_again)
      next
        case False
        with h' show ?thesis by (simp add: set_input_features_set_by_def list_update_beyond)
      qed
      with stable show ?thesis by simp
    next
      case True
      then have n: "n < length h" and none: "input_features_set_by (meta (h ! n)) = None"
        by simp_all
      have len: "length h' = length h" by (simp add: h' set_input_features_set_by_def)
      have keep: "new_set_by h' m = new_set_by h m" if m: "new_set_by h m = Inr (Some w)" for m w
      proof (rule new_set_by_cong)
        show "all_input_nodes (h' ! m) = all_input_nodes (h ! m)"
          by (simp add: h' set_input_features_set_by_nth)
        show "features_concatenate (meta (h' ! m)) = features_concatenate (meta (h ! m))"
          by (simp add: h' set_input_features_set_by_nth)
        show "tensor_meta (meta (h' ! k)) = tensor_meta (meta (h ! k))" for k
          by (simp add: h' set_input_features_set_by_nth)
        have ne: "h' ! j = h ! j" if "input_features_set_by (meta (h ! j)) \<noteq> None" for j
        proof -
          from that none have "j \<noteq> n" by auto
          then show ?thesis by (simp add: h' set_input_features_set_by_nth)
        qed
        show "if features_concatenate (meta (h ! m)) = Some True
                 then \<forall>j \<in> set (all_input_nodes (h ! m)).
                        input_features_set_by (meta (h' ! j)) = input_features_set_by (meta (h ! j))
                 else \<forall>p ps. all_input_nodes (h ! m) = p # ps \<longrightarrow> h' ! p = h ! p"
        proof (cases "features_concatenate (meta (h ! m)) = Some True")
          case True
          with new_set_by_deps [OF m]
          have "\<forall>j \<in> set (all_input_nodes (h ! m)). input_features_set_by (meta (h ! j)) \<noteq> None"
            by simp
          with ne have "\<forall>j \<in> set (all_input_nodes (h ! m)). h' ! j = h ! j" by blast
          with True show ?thesis by simp
        next
          case False
          with new_set_by_deps [OF m]
          have "\<forall>p ps. all_input_nodes (h ! m) = p # ps \<longrightarrow>
                  input_features_set_by (meta (h ! p)) \<noteq> None"
            by simp
          with ne have "\<forall>p ps. all_input_nodes (h ! m) = p # ps \<longrightarrow> h' ! p = h ! p" by blast
          with False show ?thesis by simp
        qed
      qed
      show ?thesis
        unfolding back_references_stable_def
      proof (intro allI impI)
        fix m w
        assume m: "m < length h'" and w: "input_features_set_by (meta (h' ! m)) = Some w"
        show "new_set_by h' m = Inr (Some w)"
        proof (cases "m = n")
          case True
          with w n have "w = v" by (simp add: h' set_input_features_set_by_nth)
          with keep [OF new] new True show ?thesis by simp
        next
          case False
          with w have "input_features_set_by (meta (h ! m)) = Some w"
            by (simp add: h' set_input_features_set_by_nth)
          with stable m len have "new_set_by h m = Inr (Some w)"
            by (simp add: back_references_stable_def)
          with keep [OF this] show ?thesis by simp
        qed
      qed
    qed
  qed
qed

lemma associate_input_features_stable:
  assumes run: "associate_input_features g = Some (Inr g3)"
      and fresh: "\<forall>k<length g. input_features_set_by (meta (g ! k)) = None"
      and refs: "\<forall>m<length g. \<forall>p \<in> set (all_input_nodes (g ! m)). p < length g"
  shows "association_inv g [] g3 \<and> back_references_stable g3"
proof -
  let ?I = "\<lambda>q h. association_inv g q h \<and> back_references_stable h"
  have "case (Inr g3 :: error + graph) of Inl e \<Rightarrow> True | Inr h \<Rightarrow> ?I [] h"
  proof (rule work_queue_partial [where I = ?I and E = "\<lambda>e. True",
        OF run [unfolded associate_input_features_def]], goal_cases)
    case 1
    have "back_references_stable g"
      using fresh by (simp add: back_references_stable_def)
    with association_inv_init [OF fresh refs] show ?case by simp
  next
    case (2 n rest h)
    then show ?case by (simp add: associate_input_features_body_not_None)
  next
    case (3 n rest h h' succs)
    from 3(1) have a: "association_inv g (n # rest) h" and b: "back_references_stable h"
      by simp_all
    from association_inv_step [OF a 3(2) 3(3)] back_references_stable_step [OF b 3(2)]
    show ?case by simp
  next
    case 4
    show ?case by (rule TrueI)
  next
    case 5
    show ?case by (rule TrueI)
  qed
  then show ?thesis by simp
qed

lemma annotate_node_same_flags:
  assumes a: "annotate_node parent u a = Inr a"
      and st: "same_static a b"
      and fl: "six_flags b = six_flags a"
      and un: "untouchable (meta b) = untouchable (meta a)"
      and zo: "zero_or_one_input (meta b) = zero_or_one_input (meta a)"
      and u: "static_untouchable u"
  shows "annotate_node parent u b = Inr b"
proof -
  let ?a6 = "\<lambda>fp fd. a\<lparr>meta := (meta a)\<lparr>
                 features_propagating := Some fp,
                 features_defining := Some fd,
                 shared_input_features := Some (is_shared_input_features_op a),
                 flatten := Some (is_flatten a),
                 squeeze := Some (is_squeeze a),
                 features_concatenate := Some (is_features_concatenate a)\<rparr>\<rparr>"
  from annotate_node_flags [OF a] obtain fp fd where
    fp: "is_features_propagating_op parent a = Inr fp" and
    fd: "is_features_defining_op parent a = Inr fd" and
    fa: "six_flags a = [Some fp, Some fd, Some (is_shared_input_features_op a),
                 Some (is_flatten a), Some (is_squeeze a), Some (is_features_concatenate a)]" and
    ua: "untouchable (meta a) = Some (u (?a6 fp fd))" and
    za: "zero_or_one_input (meta a) = Some (is_zero_or_one_input_op a)"
    by blast
  have st6: "same_static (?a6 fp fd) b" using st by (simp add: same_static_def)
  have fl6: "six_flags b = six_flags (?a6 fp fd)" using fl fa by (simp add: six_flags_def)
  have ub: "u b = u (?a6 fp fd)" using u st6 fl6 by (simp add: static_untouchable_def)
  show ?thesis
    by (rule annotate_node_fixpoint [where fp = fp and fd = fd])
      (simp_all add: same_static_classifiers [OF st] fp fd fl fa un ua zo za ub)
qed

text \<open>
  The second run on the result of a first run from a graph without flags, calculators
  and back-references: each of the three passes returns the graph it was given.
\<close>

lemma second_run:
  assumes ac: "acyclic (edges g)"
      and refs: "\<forall>m<length g. \<forall>p \<in> set (all_input_nodes (g ! m)). p < length g"
      and fresh: "fresh_graph g"
      and rules: "static_rules rules"
      and u: "static_untouchable u"
      and p1: "add_node_properties parent u g = Some (Inr a1)"
      and p2: "add_features_calculator parent rules a1 = Some (Inr a2)"
      and p3: "associate_input_features a2 = Some (Inr a3)"
  shows "add_node_properties parent u a3 = Some (Inr a3)"
    and "add_features_calculator parent rules a3 = Some (Inr a3)"
    and "associate_input_features a3 = Some (Inr a3)"
proof -
  define V where "V n \<longleftrightarrow> n < length g \<and> classified parent (g ! n) (a1 ! n)" for n
  note first = add_node_properties_visited [OF p1 fresh u]
  from first have inv1: "annotation_inv parent g [] a1" by (rule conjunct1)
  from first have vis: "\<forall>i<length g. classified parent (g ! i) (a1 ! i) \<longrightarrow>
             annotate_node parent u (a1 ! i) = Inr (a1 ! i)
             \<and> i \<in> Field (edges g)
             \<and> (op (g ! i) = placeholder \<or> all_input_nodes (g ! i) \<noteq> [])"
    by (rule conjunct2)
  have len1: "length a1 = length g"
    using inv1 unfolding annotation_inv_def by blast
  have st1: "same_static (g ! i) (a1 ! i)" if "i < length g" for i
    using inv1 that unfolding annotation_inv_def by blast
  have fc1: "features_calculator (meta (a1 ! i)) = None" if "i < length g" for i
  proof -
    have "features_calculator (meta (a1 ! i)) = features_calculator (meta (g ! i))"
      using inv1 that unfolding annotation_inv_def by blast
    with fresh_graph_node(2) [OF fresh that] show ?thesis by simp
  qed
  have sb1: "input_features_set_by (meta (a1 ! i)) = None" if "i < length g" for i
  proof -
    have "input_features_set_by (meta (a1 ! i)) = input_features_set_by (meta (g ! i))"
      using inv1 that unfolding annotation_inv_def by blast
    with fresh_graph_node(3) [OF fresh that] show ?thesis by simp
  qed
  have cl1: "classified parent (g ! m) (a1 ! m)"
    if "m < length g" "p \<in> set (all_input_nodes (g ! m))" "p < length g"
       "classified parent (g ! p) (a1 ! p)" for m p
  proof (rule ccontr)
    assume "\<not> classified parent (g ! m) (a1 ! m)"
    with that have "m \<in> set []"
      using inv1 unfolding annotation_inv_def by blast
    then show False by simp
  qed
  have ph1: "classified parent (g ! m) (a1 ! m)"
    if "m < length g" "op (g ! m) = placeholder" for m
  proof (rule ccontr)
    assume "\<not> classified parent (g ! m) (a1 ! m)"
    with that have "m \<in> set []"
      using inv1 unfolding annotation_inv_def by blast
    then show False by simp
  qed
  have ins1: "all_input_nodes (a1 ! i) = all_input_nodes (g ! i)" if "i < length g" for i
    using st1 [OF that] by (simp add: same_static_def)
  have op1: "op (a1 ! i) = op (g ! i)" if "i < length g" for i
    using st1 [OF that] by (simp add: same_static_def)
  have refs1: "\<forall>m<length a1. \<forall>p \<in> set (all_input_nodes (a1 ! m)). p < length a1"
    using refs by (simp add: len1 ins1)
  have fresh1: "\<forall>k<length a1. features_calculator (meta (a1 ! k)) = None"
    by (simp add: len1 fc1)
  note second = add_features_calculator_stable [OF p2 fresh1 refs1 rules]
  from second have inv2: "propagation_inv a1 [] a2" by (rule conjunct1)
  from second have cs2: "calculators_stable parent rules a2" by (rule conjunct2)
  have len2: "length a2 = length g"
    using inv2 len1 unfolding propagation_inv_def by simp
  have r12: "same_but_calculator (a1 ! k) (a2 ! k)" if "k < length g" for k
    using inv2 that len1 unfolding propagation_inv_def by simp
  have ins2: "all_input_nodes (a2 ! i) = all_input_nodes (g ! i)" if "i < length g" for i
    using r12 [OF that] ins1 [OF that] by (simp add: same_but_calculator_def same_static_def)
  have refs2: "\<forall>m<length a2. \<forall>p \<in> set (all_input_nodes (a2 ! m)). p < length a2"
    using refs by (simp add: len2 ins2)
  have fresh2: "\<forall>k<length a2. input_features_set_by (meta (a2 ! k)) = None"
  proof (intro allI impI)
    fix k assume "k < length a2"
    then have k: "k < length g" by (simp add: len2)
    from r12 [OF k] sb1 [OF k] show "input_features_set_by (meta (a2 ! k)) = None"
      by (simp add: same_but_calculator_def)
  qed
  note third = associate_input_features_stable [OF p3 fresh2 refs2]
  from third have inv3: "association_inv a2 [] a3" by (rule conjunct1)
  from third have bs3: "back_references_stable a3" by (rule conjunct2)
  have len3: "length a3 = length g"
    using inv3 len2 unfolding association_inv_def by simp
  have r23: "same_but_set_by (a2 ! k) (a3 ! k)" if "k < length g" for k
    using inv3 that len2 unfolding association_inv_def by simp
  have st13: "same_static (a1 ! k) (a3 ! k)" if "k < length g" for k
    using r12 [OF that] r23 [OF that]
    by (simp add: same_but_calculator_def same_but_set_by_def same_static_def)
  have st3: "same_static (g ! k) (a3 ! k)" if "k < length g" for k
    using st1 [OF that] st13 [OF that] by (rule same_static_trans)
  have fl13: "six_flags (a3 ! k) = six_flags (a1 ! k)" if "k < length g" for k
    using r12 [OF that] r23 [OF that]
    by (simp add: same_but_calculator_def same_but_set_by_def)
  have ins3: "all_input_nodes (a3 ! i) = all_input_nodes (g ! i)" if "i < length g" for i
    using st3 [OF that] by (simp add: same_static_def)
  have op3: "op (a3 ! i) = op (g ! i)" if "i < length g" for i
    using st3 [OF that] by (simp add: same_static_def)
  have ssg: "same_static_graph g a3"
    by (simp add: same_static_graph_def len3 st3)
  have ed3: "edges a3 = edges g" using ssg by (rule edges_static)
  have wf3: "wf (succ_rel (fx_to_nx_graph a3))"
    using ac by (simp add: wf_succ_rel_fx ed3)
  have q3: "\<forall>n \<in> set (get_input_nodes a3). V n"
  proof
    fix n assume "n \<in> set (get_input_nodes a3)"
    then have n: "n < length g" and "op (a3 ! n) = placeholder"
      by (simp_all add: get_input_nodes_set len3)
    with op3 [OF n] have "op (g ! n) = placeholder" by simp
    from ph1 [OF n this] n show "V n" by (simp add: V_def)
  qed
  have succ3: "\<exists>succs. successors (fx_to_nx_graph a3) n = Inr succs \<and> (\<forall>m \<in> set succs. V m)"
    if "V n" for n
  proof -
    from that have n: "n < length g" and cn: "classified parent (g ! n) (a1 ! n)"
      by (simp_all add: V_def)
    from vis n cn have fld: "n \<in> Field (edges a3)" by (simp add: ed3)
    show ?thesis
    proof (cases "successors (fx_to_nx_graph a3) n")
      case (Inl e)
      then have "n \<notin> Field (edges a3)" by (simp add: successors_fx_error)
      with fld show ?thesis by simp
    next
      case (Inr succs)
      have "\<forall>m \<in> set succs. V m"
      proof
        fix m assume "m \<in> set succs"
        with successors_fx [OF Inr] have "(n, m) \<in> edges g" by (simp add: ed3)
        then have m: "m < length g" and nm: "n \<in> set (all_input_nodes (g ! m))"
          by (simp_all add: edges_def)
        from cl1 [OF m nm n cn] m show "V m" by (simp add: V_def)
      qed
      with Inr show ?thesis by simp
    qed
  qed
  have root: "op (g ! n) = placeholder \<or> all_input_nodes (g ! n) \<noteq> []" if "V n" for n
    using vis that by (simp add: V_def)
  have body1: "add_node_properties_body parent u n a3 = Inr (Some a3)" if "V n" for n
  proof -
    from that have n: "n < length g" and cn: "classified parent (g ! n) (a1 ! n)"
      by (simp_all add: V_def)
    from vis n cn have a: "annotate_node parent u (a1 ! n) = Inr (a1 ! n)" by simp
    have un: "untouchable (meta (a3 ! n)) = untouchable (meta (a1 ! n))"
      using r12 [OF n] r23 [OF n] by (simp add: same_but_calculator_def same_but_set_by_def)
    have zo: "zero_or_one_input (meta (a3 ! n)) = zero_or_one_input (meta (a1 ! n))"
      using r12 [OF n] r23 [OF n] by (simp add: same_but_calculator_def same_but_set_by_def)
    from annotate_node_same_flags [OF a st13 [OF n] fl13 [OF n] un zo u]
    show ?thesis by (simp add: add_node_properties_body_def)
  qed
  have body2: "add_features_calculator_body parent rules n a3 = Inr None
             \<or> add_features_calculator_body parent rules n a3 = Inr (Some a3)" if "V n" for n
  proof (cases "list_ex (\<lambda>j. features_calculator (meta (a3 ! j)) = None)
                  (all_input_nodes (a3 ! n))")
    case True
    then show ?thesis by (simp add: add_features_calculator_body_new)
  next
    case False
    from that have n: "n < length g" by (simp add: V_def)
    have c23: "features_calculator (meta (a3 ! p)) = features_calculator (meta (a2 ! p))"
      if "p < length g" for p
      using r23 [OF that] by (simp add: same_but_set_by_def)
    have t23: "tensor_meta (meta (a3 ! p)) = tensor_meta (meta (a2 ! p))"
      if "p < length g" for p
      using r23 [OF that] by (simp add: same_but_set_by_def same_static_def)
    have pin: "p < length g" if "p \<in> set (all_input_nodes (g ! n))" for p
      using refs n that by blast
    from False have "\<forall>p \<in> set (all_input_nodes (g ! n)).
        features_calculator (meta (a3 ! p)) \<noteq> None"
      by (simp add: list_ex_iff ins3 [OF n])
    then have ready: "\<forall>p \<in> set (all_input_nodes (a1 ! n)).
        features_calculator (meta (a2 ! p)) \<noteq> None"
      using pin c23 by (simp add: ins1 [OF n])
    have n1: "n < length a1" using n by (simp add: len1)
    have root1: "op (a1 ! n) = placeholder \<or> all_input_nodes (a1 ! n) \<noteq> []"
      using root [OF \<open>V n\<close>] by (simp add: ins1 [OF n] op1 [OF n])
    from propagation_inv_closed [OF inv2 n1 root1 ready]
    obtain fc where fc: "features_calculator (meta (a2 ! n)) = Some fc" by blast
    with cs2 n have new2: "new_calculator parent rules a2 n = Inr fc"
      by (simp add: calculators_stable_def len2)
    have sr: "same_but_results a2 a3"
      using r23 by (simp add: same_but_results_def len2 len3 same_but_set_by_def)
    have n2: "n < length a2" using n by (simp add: len2)
    have ps: "\<forall>p \<in> set (all_input_nodes (a2 ! n)).
             features_calculator (meta (a3 ! p)) = features_calculator (meta (a2 ! p))
             \<and> tensor_meta (meta (a3 ! p)) = tensor_meta (meta (a2 ! p))"
      using pin c23 t23 by (simp add: ins2 [OF n])
    from new_calculator_cong [OF rules sr n2 ps] new2
    have new3: "new_calculator parent rules a3 n = Inr fc" by simp
    from fc c23 [OF n] have "features_calculator (meta (a3 ! n)) = Some fc" by simp
    then have "set_features_calculator a3 n fc = a3" by (rule set_features_calculator_same)
    with False new3 show ?thesis by (simp add: add_features_calculator_body_new)
  qed
  have body3: "associate_input_features_body n a3 = Inr (Some a3)" if "V n" for n
  proof (cases "input_features_set_by (meta (a3 ! n))")
    case (Some v)
    from that have n: "n < length g" by (simp add: V_def)
    from bs3 Some n have "new_set_by a3 n = Inr (Some v)"
      by (simp add: back_references_stable_def len3)
    with set_input_features_set_by_again [OF Some] show ?thesis
      by (simp add: associate_input_features_body_new)
  next
    case None
    from that have n: "n < length g" and cn: "classified parent (g ! n) (a1 ! n)"
      by (simp_all add: V_def)
    have n2: "n < length a2" using n by (simp add: len2)
    have root2: "op (a2 ! n) = placeholder \<or> all_input_nodes (a2 ! n) \<noteq> []"
      using root [OF \<open>V n\<close>] r12 [OF n]
      by (simp add: ins2 [OF n] op1 [OF n] same_but_calculator_def same_static_def)
    have nr: "\<not> association_ready a3 n"
    proof
      assume "association_ready a3 n"
      from association_inv_closed [OF inv3 n2 root2 this] None show False by simp
    qed
    from cn have "features_concatenate (meta (a1 ! n)) \<noteq> None"
      by (auto simp: classified_def six_flags_def)
    with six_flags_fields(6) [OF fl13 [OF n]]
    have "features_concatenate (meta (a3 ! n)) \<noteq> None" by simp
    from new_set_by_not_ready [OF nr this] show ?thesis
      by (simp add: associate_input_features_body_new)
  qed
  show "add_node_properties parent u a3 = Some (Inr a3)"
    unfolding add_node_properties_def
  proof (rule work_queue_fixpoint [where P = V, OF wf3 q3])
    fix n assume "V n"
    from body1 [OF this] succ3 [OF this]
    show "add_node_properties_body parent u n a3 = Inr None
        \<or> (add_node_properties_body parent u n a3 = Inr (Some a3)
            \<and> (\<exists>succs. successors (fx_to_nx_graph a3) n = Inr succs \<and> (\<forall>m \<in> set succs. V m)))"
      by simp
  qed
  show "add_features_calculator parent rules a3 = Some (Inr a3)"
    unfolding add_features_calculator_def
  proof (rule work_queue_fixpoint [where P = V, OF wf3 q3])
    fix n assume "V n"
    from body2 [OF this] succ3 [OF this]
    show "add_features_calculator_body parent rules n a3 = Inr None
        \<or> (add_features_calculator_body parent rules n a3 = Inr (Some a3)
            \<and> (\<exists>succs. successors (fx_to_nx_graph a3) n = Inr succs \<and> (\<forall>m \<in> set succs. V m)))"
      by blast
  qed
  show "associate_input_features a3 = Some (Inr a3)"
    unfolding associate_input_features_def
  proof (rule work_queue_fixpoint [where P = V, OF wf3 q3])
    fix n assume "V n"
    from body3 [OF this] succ3 [OF this]
    show "associate_input_features_body n a3 = Inr None
        \<or> (associate_input_features_body n a3 = Inr (Some a3)
            \<and> (\<exists>succs. successors (fx_to_nx_graph a3) n = Inr succs \<and> (\<forall>m \<in> set succs. V m)))"
      by simp
  qed
qed

lemma topological_refs:
  assumes "topological g"
  shows "\<forall>m<length g. \<forall>p \<in> set (all_input_nodes (g ! m)). p < length g"
proof (intro allI impI ballI)
  fix m p
  assume m: "m < length g" and p: "p \<in> set (all_input_nodes (g ! m))"
  from assms m have "list_all (\<lambda>p. p < m) (all_input_nodes (g ! m))"
    by (simp add: topological_def list_all_iff)
  with p have "p < m" by (simp add: list_all_iff)
  with m show "p < length g" by simp
qed

text \<open>
  Claim C8, as the code has it. When the first run starts from a graph as tracing leaves
  it (acyclic, every input of a node a node of the graph, no flag, calculator or
  back-reference yet) and returns, the extension rules look at nothing that the
  propagation and association passes write, and \<^verbatim>\<open>is_untouchable_op\<close> looks at nothing
  that the passes write but the six flags, then the second run of the three passes on
  the result returns, and returns the graph it was given: every flag, calculator and
  back-reference is as after the first run.
\<close>

theorem C8_second_run_same_results:
  assumes ac: "acyclic (edges g)"
      and refs: "\<forall>m<length g. \<forall>p \<in> set (all_input_nodes (g ! m)). p < length g"
      and fresh: "fresh_graph g"
      and rules: "static_rules rules"
      and u: "static_untouchable u"
      and run: "run_passes parent u rules g = Some (Inr g1)"
  shows "run_passes parent u rules g1 = Some (Inr g1)"
proof -
  from run obtain a1 where p1: "add_node_properties parent u g = Some (Inr a1)"
    by (auto simp: run_passes_def split: option.splits sum.splits)
  with run obtain a2 where p2: "add_features_calculator parent rules a1 = Some (Inr a2)"
    by (auto simp: run_passes_def split: option.splits sum.splits)
  with run p1 have p3: "associate_input_features a2 = Some (Inr g1)"
    by (simp add: run_passes_def)
  from second_run [OF ac refs fresh rules u p1 p2 p3]
  show ?thesis by (simp add: run_passes_def)
qed

text \<open>
  The claim as stated fails for an extension rule that reads the calculator of its node:
  with \<open>stale_rule\<close>, the first run gives the first convolution of the concatenation
  example the calculator of its 16 output channels, and the second run, with the same
  rule, replaces it.
\<close>

theorem C8_stale_rule_counterexample:
  "calculator_at (run_passes conv_registry (\<lambda>n. False) [stale_rule] concat_graph) 1
     = Some (ConstFeaturesCalculator 16)
   \<and> calculator_at
       (run_passes conv_registry (\<lambda>n. False) [stale_rule]
          (graph_of (run_passes conv_registry (\<lambda>n. False) [stale_rule] concat_graph))) 1
     = Some (ConstFeaturesCalculator 1)"
  by code_simp

theorem C8_second_run_same_results_witness:
  "\<exists>g1. run_passes conv_registry (\<lambda>n. False) [halved_conv2_rule] concat_graph = Some (Inr g1)
      \<and> calculator_at (Some (Inr g1)) 2 = Some (ConstFeaturesCalculator 12)
      \<and> run_passes conv_registry (\<lambda>n. False) [halved_conv2_rule] g1 = Some (Inr g1)"
proof -
  let ?r = "run_passes conv_registry (\<lambda>n. False) [halved_conv2_rule] concat_graph"
  have top: "topological concat_graph" by code_simp
  have ac: "acyclic (edges concat_graph)" using top by (rule topological_acyclic)
  have refs: "\<forall>m<length concat_graph.
      \<forall>p \<in> set (all_input_nodes (concat_graph ! m)). p < length concat_graph"
    using top by (rule topological_refs)
  have fresh: "fresh_graph concat_graph" by code_simp
  have rules: "static_rules [halved_conv2_rule]"
    by (simp add: static_rules_def halved_conv2_rule_def same_but_results_def same_static_def)
  have u: "static_untouchable (\<lambda>n. False)" by (simp add: static_untouchable_def)
  have "case ?r of Some (Inr g1) \<Rightarrow> True | _ \<Rightarrow> False" by code_simp
  then have run: "?r = Some (Inr (graph_of ?r))"
    by (simp add: graph_of_def split: option.splits sum.splits)
  have c: "calculator_at ?r 2 = Some (ConstFeaturesCalculator 12)" by code_simp
  from C8_second_run_same_results [OF ac refs fresh rules u run] run c
  show ?thesis by metis
qed

section \<open>The flags after the annotation pass\<close>

lemma is_features_propagating_op_iff:
  assumes "is_features_propagating_op parent n = Inr fp"
  shows "fp \<longleftrightarrow> op n = output_op
       \<or> (op n = call_module \<and> (\<exists>l. get_submodule parent (target n) = Inr l
             \<and> l \<in> {BatchNorm1d, BatchNorm2d, AvgPool1d, AvgPool2d, MaxPool1d, Dropout,
                    ReLU, ReLU6, ConstantPad1d, ConstantPad2d}))
       \<or> (op n = call_function \<and> target n \<in> {Func F_relu, Func F_relu6, Func F_log_softmax})"
  using assms
  by (auto simp: is_features_propagating_op_def split: if_splits sum.splits bool.splits)

lemma is_features_defining_op_iff:
  assumes "is_features_defining_op parent n = Inr fd"
  shows "fd \<longleftrightarrow> (op n = placeholder \<and> all_input_nodes n = [])
       \<or> (op n = call_module \<and> (\<exists>l. get_submodule parent (target n) = Inr l
             \<and> l \<in> {Conv1d, Conv2d, Linear}))"
  using assms
  by (auto simp: is_features_defining_op_def split: if_splits sum.splits)

lemma is_shared_input_features_op_iff:
  "is_shared_input_features_op n \<longleftrightarrow> op n = call_function
       \<and> target n \<in> {Func torch_add, Func operator_add, Func torch_sub, Func operator_sub}
       \<and> 1 < length (all_input_nodes n)"
  by (auto simp: is_shared_input_features_op_def is_zero_or_one_input_op_def)

lemma is_flatten_iff:
  "is_flatten n \<longleftrightarrow> (op n = call_method \<and> target n = Name ''flatten'')
       \<or> (op n = call_function \<and> target n = Func torch_flatten)"
  by (auto simp: is_flatten_def)

lemma is_squeeze_iff:
  "is_squeeze n \<longleftrightarrow> (op n = call_method \<and> target n = Name ''squeeze'')
       \<or> (op n = call_function \<and> target n = Func torch_squeeze)"
  by (auto simp: is_squeeze_def)

lemma is_features_concatenate_iff:
  "is_features_concatenate n \<longleftrightarrow> op n = call_function \<and> target n = Func torch_cat
       \<and> try_get_args n 1 ''dim'' (IntArg 0) = IntArg 1"
  by (auto simp: is_features_concatenate_def is_concatenate_def)

lemma allow_listed_iff:
  assumes fp: "is_features_propagating_op parent n = Inr fp"
      and fd: "is_features_defining_op parent n = Inr fd"
  shows "allow_listed parent n \<longleftrightarrow>
           fp \<or> fd \<or> is_shared_input_features_op n \<or> is_flatten n \<or> is_squeeze n
           \<or> is_features_concatenate n"
  unfolding is_features_propagating_op_iff [OF fp] is_features_defining_op_iff [OF fd]
    is_shared_input_features_op_iff is_flatten_iff is_squeeze_iff is_features_concatenate_iff
    allow_listed_def
  by (auto split: sum.splits)

lemma count_true:
  assumes "length (filter (\<lambda>b. b) fl) \<le> 1"
  shows "length (filter (\<lambda>b. b) fl) = (if (\<exists>b \<in> set fl. b) then 1 else 0)"
proof (cases "\<exists>b \<in> set fl. b")
  case True
  then have "filter (\<lambda>b. b) fl \<noteq> []" by (simp add: filter_empty_conv)
  then obtain x xs where "filter (\<lambda>b. b) fl = x # xs"
    by (cases "filter (\<lambda>b. b) fl") auto
  with assms True show ?thesis by simp
next
  case False
  then have "filter (\<lambda>b. b) fl = []" by (simp add: filter_empty_conv)
  with False show ?thesis by simp
qed

lemma classified_count:
  assumes "classified parent n a"
  shows "\<exists>fl. six_flags a = map Some fl
           \<and> length (filter (\<lambda>b. b) fl) = (if allow_listed parent n then 1 else 0)"
proof -
  from assms obtain fp fd where
    fp: "is_features_propagating_op parent n = Inr fp" and
    fd: "is_features_defining_op parent n = Inr fd" and
    fl: "six_flags a = map Some [fp, fd, is_shared_input_features_op n,
           is_flatten n, is_squeeze n, is_features_concatenate n]"
    by (auto simp: classified_def)
  let ?fl = "[fp, fd, is_shared_input_features_op n, is_flatten n, is_squeeze n,
    is_features_concatenate n]"
  have "(\<exists>b \<in> set ?fl. b) \<longleftrightarrow> allow_listed parent n"
    unfolding allow_listed_iff [OF fp fd] by simp
  with count_true [OF classifiers_exclusive [OF fp fd]]
  have "length (filter (\<lambda>b. b) ?fl) = (if allow_listed parent n then 1 else 0)" by simp
  with fl show ?thesis by blast
qed

lemma add_node_properties_inv:
  assumes run: "add_node_properties parent u g = Some (Inr g')"
      and fresh: "fresh_graph g"
  shows "annotation_inv parent g [] g'"
proof -
  have "case (Inr g' :: error + graph) of Inl e \<Rightarrow> True | Inr h \<Rightarrow> annotation_inv parent g [] h"
  proof (rule work_queue_partial [where I = "annotation_inv parent g" and E = "\<lambda>e. True",
        OF run [unfolded add_node_properties_def]], goal_cases)
    case 1
    show ?case by (rule annotation_inv_init [OF fresh])
  next
    case (2 n rest h)
    then show ?case by (simp add: add_node_properties_body_def split: sum.splits)
  next
    case (3 n rest h h' succs)
    then show ?case by (rule annotation_inv_step)
  next
    case 4
    show ?case by (rule TrueI)
  next
    case 5
    show ?case by (rule TrueI)
  qed
  then show ?thesis by simp
qed

lemma annotation_inv_successor:
  assumes inv: "annotation_inv parent g [] g'" and i: "i < length g"
      and p: "p \<in> set (all_input_nodes (g ! i))" "p < length g"
      and cp: "classified parent (g ! p) (g' ! p)"
  shows "classified parent (g ! i) (g' ! i)"
proof (rule ccontr)
  assume "\<not> classified parent (g ! i) (g' ! i)"
  with i p cp have "i \<in> set []"
    using inv unfolding annotation_inv_def by blast
  then show False by simp
qed

text \<open>
  Claim C9, as the code has it. On an acyclic graph the annotation pass terminates: it
  returns a graph, or it raises (the only errors are the \<^verbatim>\<open>AttributeError\<close> of a module
  that the parent does not have and the \<^verbatim>\<open>NetworkXError\<close> of a popped node that is on no
  edge, such as an input that no node uses). When it returns a graph, every node is
  either left as it was or visited, and then its six flags are the values of the six
  classifiers on it; every placeholder is visited, and on a graph without flags before
  the pass every user of a visited node is visited. Of the six flags of a visited node
  at most one is true: exactly one for a node of an allow-listed kind, none for any
  other node. Every input node (a placeholder without predecessors) has
  \<^verbatim>\<open>features_defining\<close> true and the other five flags false.
\<close>

theorem C9_flags_are_the_classifiers:
  "(acyclic (edges g) \<longrightarrow> (\<exists>r. add_node_properties parent u g = Some r))
   \<and> (\<forall>e. add_node_properties parent u g = Some (Inl e) \<longrightarrow>
        e = AttributeError \<or> (\<exists>k. e = NetworkXError k))
   \<and> (\<forall>g'. add_node_properties parent u g = Some (Inr g') \<longrightarrow>
        length g' = length g
        \<and> (\<forall>i<length g.
             (g' ! i = g ! i \<or> classified parent (g ! i) (g' ! i))
             \<and> (op (g ! i) = placeholder \<longrightarrow> classified parent (g ! i) (g' ! i))
             \<and> (fresh_graph g \<longrightarrow>
                  (\<forall>p \<in> set (all_input_nodes (g ! i)).
                     p < length g \<and> classified parent (g ! p) (g' ! p) \<longrightarrow>
                     classified parent (g ! i) (g' ! i)))
             \<and> (classified parent (g ! i) (g' ! i) \<longrightarrow>
                  (\<exists>fl. six_flags (g' ! i) = map Some fl
                     \<and> length (filter (\<lambda>b. b) fl)
                         = (if allow_listed parent (g ! i) then 1 else 0)))
             \<and> (op (g ! i) = placeholder \<and> all_input_nodes (g ! i) = [] \<longrightarrow>
                  six_flags (g' ! i)
                    = [Some False, Some True, Some False, Some False, Some False, Some False])))"
proof (intro conjI allI impI ballI)
  assume "acyclic (edges g)"
  then show "\<exists>r. add_node_properties parent u g = Some r"
    by (rule add_node_properties_terminates)
next
  fix e assume "add_node_properties parent u g = Some (Inl e)"
  then show "e = AttributeError \<or> (\<exists>k. e = NetworkXError k)"
    by (rule add_node_properties_errors)
next
  fix g' assume run: "add_node_properties parent u g = Some (Inr g')"
  note post = add_node_properties_post [OF run]
  show "length g' = length g" using post by simp
  fix i assume i: "i < length g"
  show "g' ! i = g ! i \<or> classified parent (g ! i) (g' ! i)" using post i by simp
  {
    assume "op (g ! i) = placeholder"
    with post i show "classified parent (g ! i) (g' ! i)" by simp
  }
  {
    fix p
    assume fresh: "fresh_graph g" and pin: "p \<in> set (all_input_nodes (g ! i))"
      and p: "p < length g \<and> classified parent (g ! p) (g' ! p)"
    from annotation_inv_successor [OF add_node_properties_inv [OF run fresh] i pin] p
    show "classified parent (g ! i) (g' ! i)" by simp
  }
  {
    assume "classified parent (g ! i) (g' ! i)"
    then show "\<exists>fl. six_flags (g' ! i) = map Some fl
        \<and> length (filter (\<lambda>b. b) fl) = (if allow_listed parent (g ! i) then 1 else 0)"
      by (rule classified_count)
  }
  assume "op (g ! i) = placeholder \<and> all_input_nodes (g ! i) = []"
  with post i show "six_flags (g' ! i)
      = [Some False, Some True, Some False, Some False, Some False, Some False]"
    by (auto intro: placeholder_classified)
qed

text \<open>
  The claim as stated fails: after the annotation pass the node of \<^verbatim>\<open>x + 1\<close>, which is not
  an input, has none of the six flags true.
\<close>

theorem C9_unsupported_node_counterexample:
  "op (add_constant_graph ! 1) \<noteq> placeholder
   \<and> all_input_nodes (add_constant_graph ! 1) = [0]
   \<and> flags_at (add_node_properties Map.empty (\<lambda>n. False) add_constant_graph) 1
       = [Some False, Some False, Some False, Some False, Some False, Some False]"
  by code_simp

theorem C9_flags_are_the_classifiers_witness:
  "(\<exists>r. add_node_properties conv_registry (\<lambda>n. False) concat_graph = Some r)
   \<and> length (graph_of (add_node_properties conv_registry (\<lambda>n. False) concat_graph))
       = length concat_graph
   \<and> classified conv_registry (concat_graph ! 3)
       (graph_of (add_node_properties conv_registry (\<lambda>n. False) concat_graph) ! 3)
   \<and> (\<exists>fl. six_flags (graph_of (add_node_properties conv_registry (\<lambda>n. False) concat_graph) ! 3)
           = map Some fl \<and> length (filter (\<lambda>b. b) fl) = 1)
   \<and> six_flags (graph_of (add_node_properties conv_registry (\<lambda>n. False) concat_graph) ! 0)
       = [Some False, Some True, Some False, Some False, Some False, Some False]"
proof -
  let ?g' = "graph_of (add_node_properties conv_registry (\<lambda>n. False) concat_graph)"
  have ac: "acyclic (edges concat_graph)"
    by (rule topological_acyclic) code_simp
  have run: "add_node_properties conv_registry (\<lambda>n. False) concat_graph = Some (Inr ?g')"
    by code_simp
  have fresh: "fresh_graph concat_graph" by code_simp
  have h: "(0::nat) < length concat_graph" "(1::nat) < length concat_graph"
    "(3::nat) < length concat_graph"
    "op (concat_graph ! 0) = placeholder" "all_input_nodes (concat_graph ! 0) = []"
    "0 \<in> set (all_input_nodes (concat_graph ! 1))"
    "1 \<in> set (all_input_nodes (concat_graph ! 3))"
    "allow_listed conv_registry (concat_graph ! 3)"
    by code_simp+
  note c9 = C9_flags_are_the_classifiers [of concat_graph conv_registry "\<lambda>n. False"]
  from c9 ac have t: "\<exists>r. add_node_properties conv_registry (\<lambda>n. False) concat_graph = Some r"
    by blast
  from c9 run have len: "length ?g' = length concat_graph" by blast
  from c9 run h(1,4) have c0: "classified conv_registry (concat_graph ! 0) (?g' ! 0)" by blast
  from c9 run h(2) fresh h(6) h(1) c0
  have c1: "classified conv_registry (concat_graph ! 1) (?g' ! 1)" by blast
  from c9 run h(3) fresh h(7) h(2) c1
  have c3: "classified conv_registry (concat_graph ! 3) (?g' ! 3)" by blast
  from c9 run h(3) c3
  have "\<exists>fl. six_flags (?g' ! 3) = map Some fl
      \<and> length (filter (\<lambda>b. b) fl)
          = (if allow_listed conv_registry (concat_graph ! 3) then 1 else 0)"
    by blast
  with h(8)
  have n3: "\<exists>fl. six_flags (?g' ! 3) = map Some fl \<and> length (filter (\<lambda>b. b) fl) = 1"
    by simp
  from c9 run h(1,4,5)
  have f0: "six_flags (?g' ! 0)
       = [Some False, Some True, Some False, Some False, Some False, Some False]"
    by blast
  from t len c3 n3 f0 show ?thesis by blast
qed

section \<open>Addition and subtraction with a single input node\<close>

lemma not_true_cases: "Some True \<noteq> x \<Longrightarrow> x = None \<or> x = Some False"
  by (cases x) auto

lemma calculator_from_flags_no_flag:
  assumes "Some True \<notin> set (six_flags (h ! i))"
  shows "\<exists>e. calculator_from_flags h i = Inl e"
proof -
  from assms have
    1: "flatten (meta (h ! i)) = None \<or> flatten (meta (h ! i)) = Some False" and
    2: "squeeze (meta (h ! i)) = None \<or> squeeze (meta (h ! i)) = Some False" and
    3: "features_concatenate (meta (h ! i)) = None
        \<or> features_concatenate (meta (h ! i)) = Some False" and
    4: "shared_input_features (meta (h ! i)) = None
        \<or> shared_input_features (meta (h ! i)) = Some False" and
    5: "features_defining (meta (h ! i)) = None
        \<or> features_defining (meta (h ! i)) = Some False" and
    6: "features_propagating (meta (h ! i)) = None
        \<or> features_propagating (meta (h ! i)) = Some False"
    by (simp_all add: six_flags_def not_true_cases)
  from 1 show ?thesis
  proof
    assume "flatten (meta (h ! i)) = None"
    then show ?thesis by (simp add: calculator_from_flags_def)
  next
    assume a: "flatten (meta (h ! i)) = Some False"
    from 2 show ?thesis
    proof
      assume "squeeze (meta (h ! i)) = None"
      with a show ?thesis by (simp add: calculator_from_flags_def)
    next
      assume b: "squeeze (meta (h ! i)) = Some False"
      from 3 show ?thesis
      proof
        assume "features_concatenate (meta (h ! i)) = None"
        with a b show ?thesis by (simp add: calculator_from_flags_def)
      next
        assume c: "features_concatenate (meta (h ! i)) = Some False"
        from 4 show ?thesis
        proof
          assume "shared_input_features (meta (h ! i)) = None"
          with a b c show ?thesis by (simp add: calculator_from_flags_def)
        next
          assume d: "shared_input_features (meta (h ! i)) = Some False"
          from 5 show ?thesis
          proof
            assume "features_defining (meta (h ! i)) = None"
            with a b c d show ?thesis by (simp add: calculator_from_flags_def)
          next
            assume e: "features_defining (meta (h ! i)) = Some False"
            from 6 a b c d e show ?thesis by (auto simp: calculator_from_flags_def)
          qed
        qed
      qed
    qed
  qed
qed

lemma calculator_from_flags_same_flags:
  assumes "six_flags (k ! i) = six_flags (h ! i)"
      and "Some True \<notin> set (six_flags (h ! i))"
  shows "\<exists>e. calculator_from_flags k i = Inl e"
  using calculator_from_flags_no_flag [of k i] assms by simp

text \<open>
  A node none of whose six flags is true, and for which no extension rule answers, is
  never given a calculator by the propagation pass.
\<close>

lemma add_features_calculator_never:
  assumes run: "add_features_calculator parent rules h = Some (Inr h')"
      and nt: "Some True \<notin> set (six_flags (h ! i))"
      and none: "features_calculator (meta (h ! i)) = None"
      and rules: "\<forall>k. first_rule rules parent k i = None"
  shows "features_calculator (meta (h' ! i)) = None"
proof -
  let ?I = "\<lambda>(q :: nat list) k. six_flags (k ! i) = six_flags (h ! i)
      \<and> features_calculator (meta (k ! i)) = None"
  have "case (Inr h' :: error + graph) of Inl e \<Rightarrow> True | Inr k \<Rightarrow> ?I [] k"
  proof (rule work_queue_partial [where I = ?I and E = "\<lambda>e. True",
        OF run [unfolded add_features_calculator_def]], goal_cases)
    case 1
    show ?case using none by simp
  next
    case (2 n rest k)
    then show ?case by simp
  next
    case (3 n rest k k' succs)
    from 3(1) have fl: "six_flags (k ! i) = six_flags (h ! i)"
      and kn: "features_calculator (meta (k ! i)) = None" by simp_all
    have "n \<noteq> i"
    proof
      assume "n = i"
      from calculator_from_flags_same_flags [OF fl nt]
      obtain e where "calculator_from_flags k i = Inl e" ..
      with 3(2) rules \<open>n = i\<close> show False
        by (simp add: add_features_calculator_body_def split: if_splits)
    qed
    with add_features_calculator_body_frame [OF 3(2)] have "k' ! i = k ! i" by simp
    with fl kn show ?case by simp
  next
    case 4
    show ?case by (rule TrueI)
  next
    case 5
    show ?case by (rule TrueI)
  qed
  then show ?thesis by simp
qed

text \<open>The invariants of the three passes at the end of a run that returns a graph.\<close>

lemma run_passes_invariants:
  assumes refs: "\<forall>m<length g. \<forall>p \<in> set (all_input_nodes (g ! m)). p < length g"
      and fresh: "fresh_graph g"
      and run: "run_passes parent u rules g = Some (Inr g')"
  obtains a1 a2 where "annotation_inv parent g [] a1" and "propagation_inv a1 [] a2"
    and "association_inv a2 [] g'"
    and "add_features_calculator parent rules a1 = Some (Inr a2)"
proof -
  from run obtain a1 where p1: "add_node_properties parent u g = Some (Inr a1)"
    by (auto simp: run_passes_def split: option.splits sum.splits)
  with run obtain a2 where p2: "add_features_calculator parent rules a1 = Some (Inr a2)"
    by (auto simp: run_passes_def split: option.splits sum.splits)
  with run p1 have p3: "associate_input_features a2 = Some (Inr g')"
    by (simp add: run_passes_def)
  have inv1: "annotation_inv parent g [] a1" by (rule add_node_properties_inv [OF p1 fresh])
  have len1: "length a1 = length g"
    using inv1 unfolding annotation_inv_def by blast
  have st1: "same_static (g ! i) (a1 ! i)" if "i < length g" for i
    using inv1 that unfolding annotation_inv_def by blast
  have fc1: "features_calculator (meta (a1 ! i)) = None" if "i < length g" for i
  proof -
    have "features_calculator (meta (a1 ! i)) = features_calculator (meta (g ! i))"
      using inv1 that unfolding annotation_inv_def by blast
    with fresh_graph_node(2) [OF fresh that] show ?thesis by simp
  qed
  have sb1: "input_features_set_by (meta (a1 ! i)) = None" if "i < length g" for i
  proof -
    have "input_features_set_by (meta (a1 ! i)) = input_features_set_by (meta (g ! i))"
      using inv1 that unfolding annotation_inv_def by blast
    with fresh_graph_node(3) [OF fresh that] show ?thesis by simp
  qed
  have ins1: "all_input_nodes (a1 ! i) = all_input_nodes (g ! i)" if "i < length g" for i
    using st1 [OF that] by (simp add: same_static_def)
  have refs1: "\<forall>m<length a1. \<forall>p \<in> set (all_input_nodes (a1 ! m)). p < length a1"
    using refs by (simp add: len1 ins1)
  have fresh1: "\<forall>k<length a1. features_calculator (meta (a1 ! k)) = None"
    by (simp add: len1 fc1)
  have inv2: "propagation_inv a1 [] a2"
    by (rule add_features_calculator_post [OF p2 fresh1 refs1])
  have len2: "length a2 = length g"
    using inv2 len1 unfolding propagation_inv_def by simp
  have r12: "same_but_calculator (a1 ! k) (a2 ! k)" if "k < length g" for k
    using inv2 that len1 unfolding propagation_inv_def by simp
  have ins2: "all_input_nodes (a2 ! i) = all_input_nodes (g ! i)" if "i < length g" for i
    using r12 [OF that] ins1 [OF that] by (simp add: same_but_calculator_def same_static_def)
  have refs2: "\<forall>m<length a2. \<forall>p \<in> set (all_input_nodes (a2 ! m)). p < length a2"
    using refs by (simp add: len2 ins2)
  have fresh2: "\<forall>k<length a2. input_features_set_by (meta (a2 ! k)) = None"
  proof (intro allI impI)
    fix k assume "k < length a2"
    then have k: "k < length g" by (simp add: len2)
    from r12 [OF k] sb1 [OF k] show "input_features_set_by (meta (a2 ! k)) = None"
      by (simp add: same_but_calculator_def)
  qed
  from associate_input_features_stable [OF p3 fresh2 refs2]
  have inv3: "association_inv a2 [] g'" by (rule conjunct1)
  from that [OF inv1 inv2 inv3 p2] show ?thesis .
qed

text \<open>
  Claim C10, as the code has it. A \<^verbatim>\<open>call_function\<close> node whose target is one of
  \<^verbatim>\<open>torch.add\<close>, \<^verbatim>\<open>operator.add\<close>, \<^verbatim>\<open>torch.sub\<close>, \<^verbatim>\<open>operator.sub\<close> and that has at most one input
  node is not a shared-input-features operation, and the annotation body writes its six
  flags as false. The propagation body raises the unsupported-node error when it pops
  the node in a graph where it carries these flags, every predecessor has a calculator
  and no extension rule gives one. The pass does not fail otherwise: when the three
  passes, started on a graph without flags, calculators and back-references and with
  no extension rule that answers for the node, return a graph, the node has no
  calculator in it and neither has its input node, because the node was never popped
  with a calculator on its input.
\<close>

theorem C10_single_input_add_never_propagates:
  assumes "i < length g"
      and "op (g ! i) = call_function"
      and "target (g ! i) \<in> {Func torch_add, Func operator_add, Func torch_sub, Func operator_sub}"
      and "length (all_input_nodes (g ! i)) \<le> 1"
  shows "is_shared_input_features_op (g ! i) = False
       \<and> (\<exists>g1. add_node_properties_body parent u i g = Inr (Some g1)
             \<and> six_flags (g1 ! i) =
                 [Some False, Some False, Some False, Some False, Some False, Some False]
             \<and> (\<forall>g2 rules.
                   six_flags (g2 ! i) = six_flags (g1 ! i)
                   \<and> \<not> list_ex (\<lambda>j. features_calculator (meta (g2 ! j)) = None)
                          (all_input_nodes (g2 ! i))
                   \<and> first_rule rules parent g2 i = None
                 \<longrightarrow> add_features_calculator_body parent rules i g2
                       = Inl (ValueError_unsupported_node i)))
       \<and> (\<forall>rules g'.
             fresh_graph g
             \<and> (\<forall>m<length g. \<forall>p \<in> set (all_input_nodes (g ! m)). p < length g)
             \<and> (\<forall>h. first_rule rules parent h i = None)
             \<and> run_passes parent u rules g = Some (Inr g')
           \<longrightarrow> features_calculator (meta (g' ! i)) = None
               \<and> (\<forall>p \<in> set (all_input_nodes (g ! i)).
                     features_calculator (meta (g' ! p)) = None))"
proof (intro conjI allI impI ballI)
  show sh: "is_shared_input_features_op (g ! i) = False"
    using assms(4) by (simp add: is_shared_input_features_op_def is_zero_or_one_input_op_def)
  have fp: "is_features_propagating_op parent (g ! i) = Inr False"
    using assms(2,3) by (auto simp: is_features_propagating_op_def)
  have fd: "is_features_defining_op parent (g ! i) = Inr False"
    using assms(2) by (simp add: is_features_defining_op_def)
  have rest: "\<not> is_flatten (g ! i)" "\<not> is_squeeze (g ! i)" "\<not> is_features_concatenate (g ! i)"
    using assms(2,3)
    by (auto simp: is_flatten_def is_squeeze_def is_features_concatenate_def is_concatenate_def)
  from annotate_node_six_flags [OF fp fd, of u] sh rest
  obtain n' where n': "annotate_node parent u (g ! i) = Inr n'"
    "six_flags n' = [Some False, Some False, Some False, Some False, Some False, Some False]"
    by auto
  let ?g1 = "g[i := n']"
  have "add_node_properties_body parent u i g = Inr (Some ?g1)"
    using n' by (simp add: add_node_properties_body_def)
  moreover have "six_flags (?g1 ! i) =
      [Some False, Some False, Some False, Some False, Some False, Some False]"
    using n' assms(1) by simp
  ultimately show "\<exists>g1. add_node_properties_body parent u i g = Inr (Some g1)
             \<and> six_flags (g1 ! i) =
                 [Some False, Some False, Some False, Some False, Some False, Some False]
             \<and> (\<forall>g2 rules.
                   six_flags (g2 ! i) = six_flags (g1 ! i)
                   \<and> \<not> list_ex (\<lambda>j. features_calculator (meta (g2 ! j)) = None)
                          (all_input_nodes (g2 ! i))
                   \<and> first_rule rules parent g2 i = None
                 \<longrightarrow> add_features_calculator_body parent rules i g2
                       = Inl (ValueError_unsupported_node i))"
    using six_flags_false_unsupported by (intro exI [of _ ?g1]) auto
  fix rules g'
  assume hyp: "fresh_graph g
             \<and> (\<forall>m<length g. \<forall>p \<in> set (all_input_nodes (g ! m)). p < length g)
             \<and> (\<forall>h. first_rule rules parent h i = None)
             \<and> run_passes parent u rules g = Some (Inr g')"
  then have fresh: "fresh_graph g"
    and refs: "\<forall>m<length g. \<forall>p \<in> set (all_input_nodes (g ! m)). p < length g"
    and rules: "\<forall>h. first_rule rules parent h i = None"
    and run: "run_passes parent u rules g = Some (Inr g')"
    by simp_all
  from run_passes_invariants [OF refs fresh run]
  obtain a1 a2 where inv1: "annotation_inv parent g [] a1"
    and inv2: "propagation_inv a1 [] a2"
    and inv3: "association_inv a2 [] g'"
    and p2: "add_features_calculator parent rules a1 = Some (Inr a2)" .
  note i = assms(1)
  have len1: "length a1 = length g"
    using inv1 unfolding annotation_inv_def by blast
  have len2: "length a2 = length g"
    using inv2 len1 unfolding propagation_inv_def by simp
  have ins1: "all_input_nodes (a1 ! i) = all_input_nodes (g ! i)"
    using inv1 i unfolding annotation_inv_def same_static_def by blast
  have fc1: "features_calculator (meta (a1 ! i)) = None"
  proof -
    have "features_calculator (meta (a1 ! i)) = features_calculator (meta (g ! i))"
      using inv1 i unfolding annotation_inv_def by blast
    with fresh_graph_node(2) [OF fresh i] show ?thesis by simp
  qed
  have "a1 ! i = g ! i \<or> classified parent (g ! i) (a1 ! i)"
    using inv1 i unfolding annotation_inv_def by blast
  then have nt: "Some True \<notin> set (six_flags (a1 ! i))"
  proof
    assume "a1 ! i = g ! i"
    with fresh_graph_node(1) [OF fresh i] show ?thesis by simp
  next
    assume "classified parent (g ! i) (a1 ! i)"
    with fp fd sh rest show ?thesis by (auto simp: classified_def)
  qed
  have c2: "features_calculator (meta (a2 ! i)) = None"
    by (rule add_features_calculator_never [OF p2 nt fc1 rules])
  have c23: "features_calculator (meta (g' ! k)) = features_calculator (meta (a2 ! k))"
    if "k < length g" for k
    using inv3 that len2 unfolding association_inv_def same_but_set_by_def by simp
  from c2 c23 [OF i] show "features_calculator (meta (g' ! i)) = None" by simp
  fix p assume p: "p \<in> set (all_input_nodes (g ! i))"
  with assms(4) have one: "all_input_nodes (g ! i) = [p]"
    by (cases "all_input_nodes (g ! i)") auto
  from refs i p have pl: "p < length g" by blast
  have "features_calculator (meta (a2 ! p)) = None"
  proof (rule ccontr)
    assume "features_calculator (meta (a2 ! p)) \<noteq> None"
    then have ready: "\<forall>q \<in> set (all_input_nodes (a1 ! i)).
        features_calculator (meta (a2 ! q)) \<noteq> None"
      by (simp add: ins1 one)
    have root: "op (a1 ! i) = placeholder \<or> all_input_nodes (a1 ! i) \<noteq> []"
      by (simp add: ins1 one)
    have "i < length a1" using i by (simp add: len1)
    from propagation_inv_closed [OF inv2 this root ready] c2 show False by simp
  qed
  with c23 [OF pl] show "features_calculator (meta (g' ! p)) = None" by simp
qed

text \<open>
  The claim as stated fails: in \<^verbatim>\<open>torch.cat((x, self.w), 1) + 1\<close> the addition (node 3) has
  a single input node and its six flags are false after the annotation pass, and yet
  the propagation pass and the run of the three passes return without an error: the
  concatenation is skipped, so that the addition is never popped.
\<close>

theorem C10_addition_never_popped_counterexample:
  "op (cat_attr_add_graph ! 3) = call_function
   \<and> target (cat_attr_add_graph ! 3) = Func operator_add
   \<and> all_input_nodes (cat_attr_add_graph ! 3) = [2]
   \<and> is_shared_input_features_op (cat_attr_add_graph ! 3) = False
   \<and> flags_at (add_node_properties Map.empty (\<lambda>n. False) cat_attr_add_graph) 3
       = [Some False, Some False, Some False, Some False, Some False, Some False]
   \<and> add_features_calculator Map.empty []
         (graph_of (add_node_properties Map.empty (\<lambda>n. False) cat_attr_add_graph))
       = Some (Inr (graph_of (add_features_calculator Map.empty []
           (graph_of (add_node_properties Map.empty (\<lambda>n. False) cat_attr_add_graph)))))
   \<and> run_passes Map.empty (\<lambda>n. False) [] cat_attr_add_graph
       = Some (Inr (graph_of (run_passes Map.empty (\<lambda>n. False) [] cat_attr_add_graph)))
   \<and> length (graph_of (run_passes Map.empty (\<lambda>n. False) [] cat_attr_add_graph)) = 5"
  by code_simp

theorem C10_single_input_add_never_propagates_witness:
  "is_shared_input_features_op (cat_attr_add_graph ! 3) = False
   \<and> (\<exists>g1. add_node_properties_body Map.empty (\<lambda>n. False) 3 cat_attr_add_graph = Inr (Some g1)
         \<and> six_flags (g1 ! 3) =
             [Some False, Some False, Some False, Some False, Some False, Some False]
         \<and> (\<forall>g2 rules.
               six_flags (g2 ! 3) = six_flags (g1 ! 3)
               \<and> \<not> list_ex (\<lambda>j. features_calculator (meta (g2 ! j)) = None)
                      (all_input_nodes (g2 ! 3))
               \<and> first_rule rules Map.empty g2 3 = None
             \<longrightarrow> add_features_calculator_body Map.empty rules 3 g2
                   = Inl (ValueError_unsupported_node 3)))
   \<and> features_calculator
       (meta (graph_of (run_passes Map.empty (\<lambda>n. False) [] cat_attr_add_graph) ! 3)) = None
   \<and> features_calculator
       (meta (graph_of (run_passes Map.empty (\<lambda>n. False) [] cat_attr_add_graph) ! 2)) = None
   \<and> run_passes Map.empty (\<lambda>n. False) [] add_constant_graph
       = Some (Inl (ValueError_unsupported_node 1))"
proof -
  let ?g' = "graph_of (run_passes Map.empty (\<lambda>n. False) [] cat_attr_add_graph)"
  have h: "3 < length cat_attr_add_graph"
    "op (cat_attr_add_graph ! 3) = call_function"
    "target (cat_attr_add_graph ! 3)
       \<in> {Func torch_add, Func operator_add, Func torch_sub, Func operator_sub}"
    "length (all_input_nodes (cat_attr_add_graph ! 3)) \<le> 1"
    by code_simp+
  have top: "topological cat_attr_add_graph" by code_simp
  have refs: "\<forall>m<length cat_attr_add_graph.
      \<forall>p \<in> set (all_input_nodes (cat_attr_add_graph ! m)). p < length cat_attr_add_graph"
    using top by (rule topological_refs)
  have fresh: "fresh_graph cat_attr_add_graph" by code_simp
  have rules: "\<forall>h. first_rule [] Map.empty h 3 = None" by simp
  have run: "run_passes Map.empty (\<lambda>n. False) [] cat_attr_add_graph = Some (Inr ?g')"
    by code_simp
  have p: "2 \<in> set (all_input_nodes (cat_attr_add_graph ! 3))" by code_simp
  have other: "run_passes Map.empty (\<lambda>n. False) [] add_constant_graph
       = Some (Inl (ValueError_unsupported_node 1))"
    by code_simp
  note c10 = C10_single_input_add_never_propagates [OF h, of Map.empty "\<lambda>n. False"]
  from c10 have a: "is_shared_input_features_op (cat_attr_add_graph ! 3) = False"
    by (rule conjunct1)
  from c10 have b: "\<exists>g1. add_node_properties_body Map.empty (\<lambda>n. False) 3 cat_attr_add_graph
           = Inr (Some g1)
         \<and> six_flags (g1 ! 3) =
             [Some False, Some False, Some False, Some False, Some False, Some False]
         \<and> (\<forall>g2 rules.
               six_flags (g2 ! 3) = six_flags (g1 ! 3)
               \<and> \<not> list_ex (\<lambda>j. features_calculator (meta (g2 ! j)) = None)
                      (all_input_nodes (g2 ! 3))
               \<and> first_rule rules Map.empty g2 3 = None
             \<longrightarrow> add_features_calculator_body Map.empty rules 3 g2
                   = Inl (ValueError_unsupported_node 3))"
    by (rule conjunct2 [THEN conjunct1])
  from c10 have "\<forall>rules g'.
             fresh_graph cat_attr_add_graph
             \<and> (\<forall>m<length cat_attr_add_graph.
                   \<forall>p \<in> set (all_input_nodes (cat_attr_add_graph ! m)).
                     p < length cat_attr_add_graph)
             \<and> (\<forall>h. first_rule rules Map.empty h 3 = None)
             \<and> run_passes Map.empty (\<lambda>n. False) rules cat_attr_add_graph = Some (Inr g')
           \<longrightarrow> features_calculator (meta (g' ! 3)) = None
               \<and> (\<forall>p \<in> set (all_input_nodes (cat_attr_add_graph ! 3)).
                     features_calculator (meta (g' ! p)) = None)"
    by (rule conjunct2 [THEN conjunct2])
  with fresh refs rules run
  have "features_calculator (meta (?g' ! 3)) = None
      \<and> (\<forall>p \<in> set (all_input_nodes (cat_attr_add_graph ! 3)).
            features_calculator (meta (?g' ! p)) = None)"
    by blast
  with p have c: "features_calculator (meta (?g' ! 3)) = None"
    "features_calculator (meta (?g' ! 2)) = None" by blast+
  from a b c other show ?thesis by blast
qed

end
